theory Spec2Isabelle
  imports Complex_Main "HOL-Library.Word" "HOL-Library.Sublist"
begin

unbundle bit_operations_syntax

section \<open>Common vocabulary\<close>

text \<open>
  Python exceptions that the modelled code raises, catches or lets through. Every
  constructor stands for an instance of Python's \<open>Exception\<close> class, which is what the
  \<open>except Exception\<close> clauses of the source catch. \<open>ActionError\<close> is any exception raised
  by code outside the modelled files (a profile action, a driver callback).
\<close>

datatype py_exception =
    AssertionError
  | OSError
  | AttributeError
  | IndexError
  | KeyError
  | TypeError
  | USBErrorBusy
  | USBErrorPipe
  | USBError
  | ActionError

text \<open>
  Callables handed over by other modules are identified by a number; what a call does is
  supplied by an environment, since the callee's code is not part of the modelled files.
\<close>

type_synonym callback = nat
type_synonym syspath = string

section \<open>Device monitor (scc/device\_monitor.py)\<close>

text \<open>
  A callback key is the tuple \<open>(subsystem, vendor_id, product_id)\<close>; for the subsystem
  \<open>input\<close> the monitor uses \<open>None\<close> for both numbers.
\<close>

type_synonym device_key = "string \<times> int option \<times> int option"

text \<open>
  What an arrival callback hands back: a return value (\<open>None\<close>, or a boolean; any other
  object counts as \<open>Some True\<close>, the monitor only tests \<open>is None\<close>), or an exception.
\<close>

datatype cb_result = Returns "bool option" | Raises py_exception

text \<open>The effects of the monitor that other code can observe, in the order they happen.\<close>

datatype dm_event =
    Registered syspath
  | ArrivalCalled callback syspath "int option" "int option"
  | Logged py_exception
  | Unregistered syspath
  | MatchSubsystem string

record device_monitor =
  dev_added_cbs :: "device_key \<rightharpoonup> callback"
  dev_removed_cbs :: "device_key \<rightharpoonup> callback option"
  known_devs :: "syspath \<rightharpoonup> (int option \<times> int option \<times> callback option)"
  dm_trace :: "dm_event list"

text \<open>
  The surroundings of the monitor: \<open>vendor_product\<close> is the outcome of
  \<open>get_vendor_product(syspath, subsystem)\<close>, which reads sysfs (\<open>Inl\<close> an exception,
  \<open>OSError\<close> when the IDs cannot be determined); \<open>arrival\<close> is the outcome of calling an
  arrival callback with \<open>(syspath, vendor, product)\<close>.
\<close>

record dm_environment =
  vendor_product :: "syspath \<Rightarrow> string \<Rightarrow> py_exception + (int \<times> int)"
  arrival :: "callback \<Rightarrow> syspath \<Rightarrow> int option \<Rightarrow> int option \<Rightarrow> cb_result"

definition dm_emit :: "dm_event \<Rightarrow> device_monitor \<Rightarrow> device_monitor" where
  "dm_emit e m = m\<lparr>dm_trace := dm_trace m @ [e]\<rparr>"

text \<open>
  \<open>DeviceMonitor.add_callback\<close>. The \<open>assert\<close> is the first statement that can fail; a
  failing call returns the exception together with the monitor as it was. The model is of
  the interpreter's default mode, in which \<open>assert\<close> statements are executed.
\<close>

definition add_callback ::
  "string \<Rightarrow> int option \<Rightarrow> int option \<Rightarrow> callback \<Rightarrow> callback option \<Rightarrow> device_monitor
     \<Rightarrow> py_exception option \<times> device_monitor" where
  "add_callback subsystem vendor_id product_id added_cb removed_cb m =
     (let key = (subsystem, vendor_id, product_id) in
      if key \<in> dom (dev_added_cbs m) then (Some AssertionError, m)
      else
        let m1 = dm_emit (MatchSubsystem subsystem) m;
            m2 = m1\<lparr>dev_added_cbs := (dev_added_cbs m1)(key \<mapsto> added_cb)\<rparr>;
            m3 = m2\<lparr>dev_removed_cbs := (dev_removed_cbs m2)(key \<mapsto> removed_cb)\<rparr>
        in (None, m3))"

text \<open>\<open>dict.get(key)\<close> on \<open>dev_removed_cbs\<close>: a missing key and a stored \<open>None\<close> both give \<open>None\<close>.\<close>

definition removed_cb_get :: "device_monitor \<Rightarrow> device_key \<Rightarrow> callback option" where
  "removed_cb_get m key = (case dev_removed_cbs m key of None \<Rightarrow> None | Some r \<Rightarrow> r)"

definition del_known_dev :: "syspath \<Rightarrow> device_monitor \<Rightarrow> device_monitor" where
  "del_known_dev syspath m =
     dm_emit (Unregistered syspath) (m\<lparr>known_devs := (known_devs m)(syspath := None)\<rparr>)"

text \<open>
  \<open>DeviceMonitor._on_new_syspath\<close>. The result is the exception that leaves the method, if
  any, and the monitor afterwards. Only an \<open>OSError\<close> of the identity lookup is caught by the
  first \<open>try\<close>; every exception of the callback is caught by the second.
\<close>

definition on_new_syspath ::
  "dm_environment \<Rightarrow> string \<Rightarrow> syspath \<Rightarrow> device_monitor
     \<Rightarrow> py_exception option \<times> device_monitor" where
  "on_new_syspath env subsystem syspath m =
     (case (if subsystem = ''input'' then Inr (None, None)
            else (case vendor_product env syspath subsystem of
                    Inl e \<Rightarrow> Inl e
                  | Inr (v, p) \<Rightarrow> Inr (Some v, Some p))) of
        Inl e \<Rightarrow> if e = OSError then (None, m) else (Some e, m)
      | Inr (vendor, product) \<Rightarrow>
          (let key = (subsystem, vendor, product);
               rem_cb = removed_cb_get m key
           in case dev_added_cbs m key of
                None \<Rightarrow> (None, m)
              | Some cb \<Rightarrow>
                  (let m1 = dm_emit (Registered syspath)
                              (m\<lparr>known_devs := (known_devs m)(syspath \<mapsto> (vendor, product, rem_cb))\<rparr>);
                       m2 = dm_emit (ArrivalCalled cb syspath vendor product) m1
                   in case arrival env cb syspath vendor product of
                        Returns None \<Rightarrow> (None, del_known_dev syspath m2)
                      | Returns (Some r) \<Rightarrow> (None, m2)
                      | Raises e \<Rightarrow> (None, del_known_dev syspath (dm_emit (Logged e) m2)))))"

text \<open>
  The identity the monitor resolves for an arrival, and whether the arrival is accepted:
  the lookup succeeds and an arrival callback is registered for the resulting key.
\<close>

definition resolve_identity ::
  "dm_environment \<Rightarrow> string \<Rightarrow> syspath \<Rightarrow> (int option \<times> int option) option" where
  "resolve_identity env subsystem syspath =
     (if subsystem = ''input'' then Some (None, None)
      else (case vendor_product env syspath subsystem of
              Inl e \<Rightarrow> None
            | Inr (v, p) \<Rightarrow> Some (Some v, Some p)))"

text \<open>Example monitors and surroundings used to evaluate the definitions.\<close>

definition empty_monitor :: device_monitor where
  "empty_monitor =
     \<lparr>dev_added_cbs = Map.empty, dev_removed_cbs = Map.empty, known_devs = Map.empty,
      dm_trace = []\<rparr>"

definition usb_monitor :: device_monitor where
  "usb_monitor = snd (add_callback ''usb'' (Some 10462) (Some 4418) 1 (Some 2) empty_monitor)"

definition env_returning :: "cb_result \<Rightarrow> dm_environment" where
  "env_returning r =
     \<lparr>vendor_product = (\<lambda>syspath subsystem. Inr (10462, 4418)),
      arrival = (\<lambda>cb syspath vendor product. r)\<rparr>"

section \<open>USB devices (scc/drivers/usb.py, class USBDevice)\<close>

type_synonym bytes = "8 word list"

text \<open>
  A queued control message is the tuple \<open>(request_type, request, value, index, data,
  timeout)\<close>; a queued request is \<open>((request_type, request, value, index, data), index,
  size, callback)\<close>.
\<close>

type_synonym control_msg = "int \<times> int \<times> int \<times> int \<times> bytes \<times> int"
type_synonym request_msg = "(int \<times> int \<times> int \<times> int \<times> bytes) \<times> int \<times> int \<times> callback"

text \<open>
  Calls made on the device handle and on the caller's callbacks, in the order they are
  made. \<open>ControlWrite\<close> carries the arguments of \<open>handle.controlWrite\<close>; the timeout is
  \<open>None\<close> when the call passes five arguments only.
\<close>

datatype usb_io =
    ControlWrite int int int int bytes "int option"
  | ControlRead int int int int int
  | RequestCallback callback bytes
  | SetInterrupt int int
  | Submit

record usb_device =
  claimed :: "int list"
  cmsg :: "control_msg list"
  rmsg :: "request_msg list"
  transfer_list :: "(int \<times> int \<times> callback) list"
  usb_io :: "usb_io list"

text \<open>
  The device and the callers behind the handle: whether a control write raises, what a
  control read returns or raises, whether a request's callback raises.
\<close>

record usb_environment =
  write_fault :: "usb_io \<Rightarrow> py_exception option"
  read_result :: "int \<Rightarrow> int \<Rightarrow> py_exception + bytes"
  request_cb_fault :: "callback \<Rightarrow> bytes \<Rightarrow> py_exception option"

definition new_usb_device :: usb_device where
  "new_usb_device = \<lparr>claimed = [], cmsg = [], rmsg = [], transfer_list = [], usb_io = []\<rparr>"

definition io_emit :: "usb_io \<Rightarrow> usb_device \<Rightarrow> usb_device" where
  "io_emit e d = d\<lparr>usb_io := usb_io d @ [e]\<rparr>"

text \<open>
  \<open>USBDevice.send_control\<close>: the data is padded with zero bytes to 64 bytes (\<open>b'\x00' * n\<close>
  is empty for \<open>n \<le> 0\<close>, as the truncating subtraction gives) and the message is
  inserted at position 0 of the queue.
\<close>

definition control_packet :: "int \<Rightarrow> bytes \<Rightarrow> control_msg" where
  "control_packet index data =
     (0x21, 0x09, 0x0300, index, data @ replicate (64 - length data) 0, 0)"

definition send_control :: "int \<Rightarrow> bytes \<Rightarrow> usb_device \<Rightarrow> usb_device" where
  "send_control index data d = d\<lparr>cmsg := control_packet index data # cmsg d\<rparr>"

text \<open>
  \<open>USBDevice.overwrite_control\<close>: the loop stops at the first queued message with the same
  index whose first three data bytes equal \<open>data[0:3]\<close> and removes it with
  \<open>list.remove\<close>, which deletes the first equal element; then the new message is sent.
\<close>

definition overwrites :: "int \<Rightarrow> bytes \<Rightarrow> control_msg \<Rightarrow> bool" where
  "overwrites index data x =
     (case x of (x_request_type, x_request, x_value, x_index, x_data, x_timeout) \<Rightarrow>
        x_index = index \<and> take 3 x_data = take 3 data)"

definition overwrite_control :: "int \<Rightarrow> bytes \<Rightarrow> usb_device \<Rightarrow> usb_device" where
  "overwrite_control index data d =
     send_control index data
       (case find (overwrites index data) (cmsg d) of
          None \<Rightarrow> d
        | Some x \<Rightarrow> d\<lparr>cmsg := remove1 x (cmsg d)\<rparr>)"

definition make_request :: "int \<Rightarrow> callback \<Rightarrow> bytes \<Rightarrow> int \<Rightarrow> usb_device \<Rightarrow> usb_device" where
  "make_request index callback data sz d =
     d\<lparr>rmsg := rmsg d @ [((0x21, 0x09, 0x0300, index, data), index, sz, callback)]\<rparr>"

text \<open>
  \<open>USBDevice.flush\<close>, first loop: \<open>list.pop()\<close> takes the last element of the queue, which
  is then written. An exception of the write leaves the method with the message already
  taken from the queue.
\<close>

function flush_cmsg :: "usb_environment \<Rightarrow> usb_device \<Rightarrow> py_exception option \<times> usb_device" where
  "flush_cmsg env d =
     (if cmsg d = [] then (None, d)
      else
        (case last (cmsg d) of (request_type, request, val, index, data, timeout) \<Rightarrow>
           let w = ControlWrite request_type request val index data (Some timeout);
               d1 = io_emit w (d\<lparr>cmsg := butlast (cmsg d)\<rparr>)
           in case write_fault env w of
                Some e \<Rightarrow> (Some e, d1)
              | None \<Rightarrow> flush_cmsg env d1))"
  by pat_completeness auto
termination
  by (relation "measure (\<lambda>(env, d). length (cmsg d))") (auto simp: io_emit_def)

text \<open>
  Second loop of \<open>flush\<close>: each request is taken from the end of its queue, written, the
  answer is read and handed to the request's callback.
\<close>

function flush_rmsg :: "usb_environment \<Rightarrow> usb_device \<Rightarrow> py_exception option \<times> usb_device" where
  "flush_rmsg env d =
     (if rmsg d = [] then (None, d)
      else
        (case last (rmsg d) of ((request_type, request, val, msg_index, data), index, sz, callback) \<Rightarrow>
           let w = ControlWrite request_type request val msg_index data None;
               d1 = io_emit w (d\<lparr>rmsg := butlast (rmsg d)\<rparr>)
           in case write_fault env w of
                Some e \<Rightarrow> (Some e, d1)
              | None \<Rightarrow>
                  (let d2 = io_emit (ControlRead 0xA1 0x01 0x0300 index sz) d1
                   in case read_result env index sz of
                        Inl e \<Rightarrow> (Some e, d2)
                      | Inr answer \<Rightarrow>
                          (let d3 = io_emit (RequestCallback callback answer) d2
                           in case request_cb_fault env callback answer of
                                Some e \<Rightarrow> (Some e, d3)
                              | None \<Rightarrow> flush_rmsg env d3))))"
  by pat_completeness auto
termination
  by (relation "measure (\<lambda>(env, d). length (rmsg d))") (auto simp: io_emit_def)

declare flush_cmsg.simps [simp del] flush_rmsg.simps [simp del]

definition flush :: "usb_environment \<Rightarrow> usb_device \<Rightarrow> py_exception option \<times> usb_device" where
  "flush env d =
     (case flush_cmsg env d of
        (Some e, d1) \<Rightarrow> (Some e, d1)
      | (None, d1) \<Rightarrow> flush_rmsg env d1)"

text \<open>The control messages written by a run, in the order of the writes.\<close>

fun written_msgs :: "usb_io list \<Rightarrow> control_msg list" where
  "written_msgs [] = []"
| "written_msgs (ControlWrite request_type request val index data (Some timeout) # es) =
     (request_type, request, val, index, data, timeout) # written_msgs es"
| "written_msgs (e # es) = written_msgs es"

text \<open>Scheduling calls on a device, applied in the order of the list.\<close>

datatype control_call = SendControl int bytes | OverwriteControl int bytes

fun apply_call :: "control_call \<Rightarrow> usb_device \<Rightarrow> usb_device" where
  "apply_call (SendControl index data) d = send_control index data d"
| "apply_call (OverwriteControl index data) d = overwrite_control index data d"

fun apply_calls :: "control_call list \<Rightarrow> usb_device \<Rightarrow> usb_device" where
  "apply_calls [] d = d"
| "apply_calls (c # cs) d = apply_calls cs (apply_call c d)"

fun scheduled_msg :: "control_call \<Rightarrow> control_msg" where
  "scheduled_msg (SendControl index data) = control_packet index data"
| "scheduled_msg (OverwriteControl index data) = control_packet index data"

definition msg_index :: "control_msg \<Rightarrow> int" where
  "msg_index x = (case x of (request_type, request, val, index, data, timeout) \<Rightarrow> index)"

definition queued_for :: "int \<Rightarrow> usb_device \<Rightarrow> control_msg list" where
  "queued_for index d = filter (\<lambda>x. msg_index x = index) (cmsg d)"

fun is_send :: "control_call \<Rightarrow> bool" where
  "is_send (SendControl index data) = True"
| "is_send (OverwriteControl index data) = False"

definition quiet_usb :: usb_environment where
  "quiet_usb =
     \<lparr>write_fault = (\<lambda>w. None), read_result = (\<lambda>index sz. Inr []),
      request_cb_fault = (\<lambda>callback answer. None)\<rparr>"


subsection \<open>Interrupt reads\<close>

text \<open>
  What libusb reports for a finished transfer, and what the completion callback installed
  by \<open>set_input_interrupt\<close> does with it: the calls it makes, in order.
\<close>

datatype transfer_status =
    TRANSFER_COMPLETED
  | TRANSFER_ERROR
  | TRANSFER_TIMED_OUT
  | TRANSFER_CANCELLED
  | TRANSFER_STALL
  | TRANSFER_NO_DEVICE
  | TRANSFER_OVERFLOW

record usb_transfer =
  getStatus :: transfer_status
  getActualLength :: int
  getBuffer :: bytes

datatype transfer_event =
    InputCallback callback int bytes
  | ErrorLogged py_exception
  | TransferSubmit
  | SubmitFailureLogged py_exception

record transfer_environment =
  input_cb_fault :: "callback \<Rightarrow> int \<Rightarrow> bytes \<Rightarrow> py_exception option"
  submit_fault :: "py_exception option"

text \<open>
  \<open>callback_wrapper\<close>, the closure of \<open>set_input_interrupt\<close> over \<open>endpoint\<close>, \<open>size\<close>
  and \<open>callback\<close>. The early \<open>return\<close> comes before the \<open>try\<close>, so its \<open>finally\<close> clause
  with the resubmission is not reached.
\<close>

definition callback_wrapper ::
  "transfer_environment \<Rightarrow> int \<Rightarrow> int \<Rightarrow> callback \<Rightarrow> usb_transfer \<Rightarrow> transfer_event list" where
  "callback_wrapper env endpoint sz callback transfer =
     (if getStatus transfer \<noteq> TRANSFER_COMPLETED \<or> getActualLength transfer \<noteq> sz then []
      else
        let data = getBuffer transfer in
        [InputCallback callback endpoint data]
        @ (case input_cb_fault env callback endpoint data of
             None \<Rightarrow> []
           | Some e \<Rightarrow> [ErrorLogged e])
        @ [TransferSubmit]
        @ (case submit_fault env of
             None \<Rightarrow> []
           | Some e \<Rightarrow> [SubmitFailureLogged e]))"

text \<open>\<open>usb1.ENDPOINT_IN\<close> is libusb's direction bit.\<close>

definition ENDPOINT_IN :: int where
  "ENDPOINT_IN = 0x80"

definition set_input_interrupt :: "int \<Rightarrow> int \<Rightarrow> callback \<Rightarrow> usb_device \<Rightarrow> usb_device" where
  "set_input_interrupt endpoint sz callback d =
     (let d1 = io_emit (SetInterrupt (ENDPOINT_IN OR endpoint) sz) d;
          d2 = io_emit Submit d1
      in d2\<lparr>transfer_list := transfer_list d2 @ [(endpoint, sz, callback)]\<rparr>)"

definition example_transfer :: "transfer_status \<Rightarrow> int \<Rightarrow> usb_transfer" where
  "example_transfer st n = \<lparr>getStatus = st, getActualLength = n, getBuffer = [7, 7]\<rparr>"

definition failing_callback :: transfer_environment where
  "failing_callback =
     \<lparr>input_cb_fault = (\<lambda>callback endpoint data. Some ActionError), submit_fault = None\<rparr>"


section \<open>USB driver (scc/drivers/usb.py, class USBDriver)\<close>

text \<open>
  A raw device is a device object of the USB library, a handle what \<open>device.open()\<close>
  returns; both are identified by a number. A retry entry is the tuple
  \<open>(syspath, (vendor, product))\<close>.
\<close>

type_synonym raw_device = nat
type_synonym device_handle = nat
type_synonym retry_entry = "syspath \<times> int \<times> int"

text \<open>
  What the driver does that can be seen from outside, in order: \<open>Attempt\<close> marks an entry
  into \<open>handle_new_device\<close>, \<open>RetryBatch\<close> the start of a replay of the retry list with
  the clock reading that let it start; the others are the log lines, the calls on the
  daemon's error surface, the callbacks and the closing of devices.
\<close>

datatype driver_event =
    Attempt syspath int int
  | RetryBatch real
  | HandleEventsTimeout
  | LogOpenFailed int int
  | LogClaimFailed int int
  | LogDeviceAdded int int
  | LogDeviceIgnored int int
  | LogDisconnected raw_device
  | FailCallback callback "syspath option" int int
  | AddError int int
  | RemoveError int int
  | DriverCallback callback raw_device device_handle
  | RawDeviceClose raw_device
  | HandledDeviceClose raw_device

record usb_driver =
  daemon_set :: bool
  known_ids :: "(int \<times> int) \<rightharpoonup> callback"
  fail_cbs :: "(int \<times> int) \<rightharpoonup> callback"
  devices :: "(raw_device \<times> usb_device) list"
  syspaths :: "syspath \<rightharpoonup> raw_device"
  retry_devices :: "retry_entry list"
  retry_devices_timer :: real
  usb_changed :: int
  driver_trace :: "driver_event list"

text \<open>
  The surroundings of the driver: the bus address sysfs gives for a bus path, the devices
  the USB context lists with their bus addresses, the outcome of opening a device, of a
  driver's callback \<open>callback(device, handle)\<close> (a handled device, \<open>None\<close>, or an
  exception) and of a failure callback, and the devices behind the handles.
\<close>

record driver_environment =
  get_usb_address :: "syspath \<Rightarrow> py_exception + (int \<times> int)"
  getDeviceIterator :: "(raw_device \<times> int \<times> int) list"
  open_device :: "raw_device \<Rightarrow> py_exception + device_handle"
  driver_callback :: "callback \<Rightarrow> raw_device \<Rightarrow> device_handle \<Rightarrow> py_exception + usb_device option"
  fail_callback_fault :: "callback \<Rightarrow> py_exception option"
  usb_handles :: usb_environment

text \<open>\<open>USBDriver.__init__\<close>; \<open>set_daemon\<close> is called by \<open>init\<close> before the driver is used.\<close>

definition new_usb_driver :: usb_driver where
  "new_usb_driver =
     \<lparr>daemon_set = True, known_ids = Map.empty, fail_cbs = Map.empty, devices = [],
      syspaths = Map.empty, retry_devices = [], retry_devices_timer = 0, usb_changed = 0,
      driver_trace = []\<rparr>"

definition drv_emit :: "driver_event \<Rightarrow> usb_driver \<Rightarrow> usb_driver" where
  "drv_emit e drv = drv\<lparr>driver_trace := driver_trace drv @ [e]\<rparr>"

text \<open>\<open>usb1.USBErrorBusy\<close> and \<open>usb1.USBErrorPipe\<close> are subclasses of \<open>usb1.USBError\<close>.\<close>

definition is_USBError :: "py_exception \<Rightarrow> bool" where
  "is_USBError e \<longleftrightarrow> e = USBError \<or> e = USBErrorBusy \<or> e = USBErrorPipe"

text \<open>Assignment to a key of a dictionary that keeps insertion order.\<close>

fun dict_set :: "'k \<Rightarrow> 'v \<Rightarrow> ('k \<times> 'v) list \<Rightarrow> ('k \<times> 'v) list" where
  "dict_set k v [] = [(k, v)]"
| "dict_set k v ((k', v') # kvs) = (if k' = k then (k, v) # kvs else (k', v') # dict_set k v kvs)"

text \<open>\<open>self.daemon.add_error(...)\<close> under \<open>if self.daemon:\<close>.\<close>

definition add_error_if_daemon :: "int \<Rightarrow> int \<Rightarrow> usb_driver \<Rightarrow> usb_driver" where
  "add_error_if_daemon vendor product drv =
     (if daemon_set drv then drv_emit (AddError vendor product) drv else drv)"

text \<open>
  \<open>USBDriver.handle_new_device\<close>, lines 262-288: the device is open, the driver's callback
  is called. Only \<open>USBErrorBusy\<close> is caught.
\<close>

definition claim_device ::
  "driver_environment \<Rightarrow> syspath \<Rightarrow> int \<Rightarrow> int \<Rightarrow> raw_device \<Rightarrow> device_handle \<Rightarrow> usb_driver
     \<Rightarrow> cb_result \<times> usb_driver" where
  "claim_device env syspath vendor product device handle drv =
     (let tp = (vendor, product) in
      case known_ids drv tp of
        None \<Rightarrow> (Raises KeyError, drv)
      | Some callback \<Rightarrow>
          (let drv1 = drv_emit (DriverCallback callback device handle) drv
           in case driver_callback env callback device handle of
                Inl e \<Rightarrow>
                  if e = USBErrorBusy then
                    (let drv2 = drv_emit (LogClaimFailed vendor product) drv1
                     in case fail_cbs drv2 tp of
                          Some on_failure \<Rightarrow>
                            (let drv3 = drv_emit (RawDeviceClose device) drv2;
                                 drv4 = drv_emit (FailCallback on_failure None vendor product) drv3
                             in case fail_callback_fault env on_failure of
                                  Some ex \<Rightarrow> (Raises ex, drv4)
                                | None \<Rightarrow> (Returns (Some False), drv4))
                        | None \<Rightarrow>
                            (let drv3 = add_error_if_daemon vendor product drv2;
                                 drv4 = drv3\<lparr>retry_devices := retry_devices drv3 @ [(syspath, tp)]\<rparr>;
                                 drv5 = drv_emit (RawDeviceClose device) drv4
                             in (Returns (Some True), drv5)))
                  else (Raises e, drv1)
              | Inr (Some handled_device) \<Rightarrow>
                  (let drv2 = drv1\<lparr>devices := dict_set device handled_device (devices drv1)\<rparr>;
                       drv3 = drv2\<lparr>syspaths := (syspaths drv2)(syspath \<mapsto> device)\<rparr>;
                       drv4 = drv_emit (LogDeviceAdded vendor product) drv3;
                       drv5 = drv_emit (RemoveError vendor product) drv4
                   in (Returns (Some True), drv5))
              | Inr None \<Rightarrow>
                  (let drv2 = drv_emit (LogDeviceIgnored vendor product) drv1;
                       drv3 = drv_emit (RawDeviceClose device) drv2
                   in (Returns (Some False), drv3))))"

text \<open>
  \<open>USBDriver.handle_new_device\<close>, lines 237-260: an unknown vendor and product returns
  \<open>None\<close>; the device with the bus address of the bus path is looked up and opened; a
  \<open>USBError\<close> of the opening is reported and ends the call with \<open>None\<close>.
\<close>

definition handle_new_device ::
  "driver_environment \<Rightarrow> syspath \<Rightarrow> int \<Rightarrow> int \<Rightarrow> usb_driver \<Rightarrow> cb_result \<times> usb_driver" where
  "handle_new_device env syspath vendor product drv =
     (let tp = (vendor, product);
          drv0 = drv_emit (Attempt syspath vendor product) drv
      in if tp \<notin> dom (known_ids drv0) then (Returns None, drv0)
         else if \<not> daemon_set drv0 then (Raises AttributeError, drv0)
         else
           (case get_usb_address env syspath of
              Inl e \<Rightarrow> (Raises e, drv0)
            | Inr bus_dev \<Rightarrow>
                (case find (\<lambda>(device, address). address = bus_dev) (getDeviceIterator env) of
                   None \<Rightarrow> (Returns None, drv0)
                 | Some (device, address) \<Rightarrow>
                     (case open_device env device of
                        Inr handle \<Rightarrow> claim_device env syspath vendor product device handle drv0
                      | Inl e \<Rightarrow>
                          if is_USBError e then
                            (let drv1 = drv_emit (LogOpenFailed vendor product) drv0
                             in case fail_cbs drv1 tp of
                                  Some on_failure \<Rightarrow>
                                    (let drv2 = drv_emit
                                           (FailCallback on_failure (Some syspath) vendor product) drv1
                                     in case fail_callback_fault env on_failure of
                                          Some ex \<Rightarrow> (Raises ex, drv2)
                                        | None \<Rightarrow> (Returns None, drv2))
                                | None \<Rightarrow> (Returns None, add_error_if_daemon vendor product drv1))
                          else (Raises e, drv0)))))"

text \<open>
  \<open>USBDriver.mainloop\<close>, lines 328-334: every handled device is flushed; a
  \<open>USBErrorPipe\<close> closes that device and ends the loop, any other exception leaves
  \<open>mainloop\<close>. The result is the exception, the devices after the flushes and the events.
\<close>

fun flush_devices ::
  "usb_environment \<Rightarrow> (raw_device \<times> usb_device) list
     \<Rightarrow> py_exception option \<times> (raw_device \<times> usb_device) list \<times> driver_event list" where
  "flush_devices env [] = (None, [], [])"
| "flush_devices env ((r, d) # ds) =
     (case flush env d of
        (None, d1) \<Rightarrow>
          (case flush_devices env ds of
             (e, ds1, evs) \<Rightarrow> (e, (r, d1) # ds1, evs))
      | (Some ex, d1) \<Rightarrow>
          if ex = USBErrorPipe
          then (None, (r, d1) # ds, [LogDisconnected r, HandledDeviceClose r])
          else (Some ex, (r, d1) # ds, []))"

text \<open>Lines 339-340: the entries of the batch are handed to \<open>handle_new_device\<close> in order.\<close>

fun retry_loop ::
  "driver_environment \<Rightarrow> retry_entry list \<Rightarrow> usb_driver \<Rightarrow> py_exception option \<times> usb_driver" where
  "retry_loop env [] drv = (None, drv)"
| "retry_loop env ((syspath, vendor, product) # lst) drv =
     (case handle_new_device env syspath vendor product drv of
        (Raises e, drv1) \<Rightarrow> (Some e, drv1)
      | (Returns r, drv1) \<Rightarrow> retry_loop env lst drv1)"

text \<open>
  \<open>USBDriver.mainloop\<close>. The two readings of \<open>time.time()\<close> in lines 336 and 337 are the
  arguments \<open>t_check\<close> and \<open>t_set\<close>; times are taken as real numbers.
\<close>

definition mainloop ::
  "driver_environment \<Rightarrow> real \<Rightarrow> real \<Rightarrow> usb_driver \<Rightarrow> py_exception option \<times> usb_driver" where
  "mainloop env t_check t_set drv =
     (let drv1 = (if usb_changed drv > 0
                  then (drv_emit HandleEventsTimeout drv)\<lparr>usb_changed := 0\<rparr>
                  else drv)
      in case flush_devices (usb_handles env) (devices drv1) of
           (Some e, ds, evs) \<Rightarrow>
             (Some e, drv1\<lparr>devices := ds, driver_trace := driver_trace drv1 @ evs\<rparr>)
         | (None, ds, evs) \<Rightarrow>
             (let drv2 = drv1\<lparr>devices := ds, driver_trace := driver_trace drv1 @ evs\<rparr>
              in if retry_devices drv2 \<noteq> [] then
                   (if t_check > retry_devices_timer drv2 then
                      (let drv3 = drv2\<lparr>retry_devices_timer := t_set + 5\<rparr>;
                           lst = retry_devices drv3;
                           drv4 = drv3\<lparr>retry_devices := []\<rparr>
                       in retry_loop env lst (drv_emit (RetryBatch t_check) drv4))
                    else (None, drv2))
                 else (None, drv2)))"

text \<open>
  The driver in use: the device monitor reports an arrival, or the daemon's loop calls
  \<open>mainloop\<close>. Exceptions are left to the caller and do not stop the sequence.
\<close>

datatype driver_call = Arrival syspath int int | Tick real real

fun run_driver :: "driver_environment \<Rightarrow> driver_call list \<Rightarrow> usb_driver \<Rightarrow> usb_driver" where
  "run_driver env [] drv = drv"
| "run_driver env (Arrival syspath vendor product # calls) drv =
     run_driver env calls (snd (handle_new_device env syspath vendor product drv))"
| "run_driver env (Tick t_check t_set # calls) drv =
     run_driver env calls (snd (mainloop env t_check t_set drv))"

fun clock_forward :: "driver_call \<Rightarrow> bool" where
  "clock_forward (Arrival syspath vendor product) = True"
| "clock_forward (Tick t_check t_set) = (t_check \<le> t_set)"

text \<open>Readings of the record: the retry batches with their times, and the attempts.\<close>

fun batch_times :: "driver_event list \<Rightarrow> real list" where
  "batch_times [] = []"
| "batch_times (RetryBatch t # es) = t # batch_times es"
| "batch_times (e # es) = batch_times es"

fun attempts :: "driver_event list \<Rightarrow> retry_entry list" where
  "attempts [] = []"
| "attempts (Attempt syspath vendor product # es) = (syspath, vendor, product) # attempts es"
| "attempts (e # es) = attempts es"

text \<open>A driver for one vendor and product whose device is always busy.\<close>

definition busy_environment :: driver_environment where
  "busy_environment =
     \<lparr>get_usb_address = (\<lambda>syspath. Inr (1, 2)),
      getDeviceIterator = [(7, 1, 2)],
      open_device = (\<lambda>device. Inr 9),
      driver_callback = (\<lambda>callback device handle. Inl USBErrorBusy),
      fail_callback_fault = (\<lambda>callback. None),
      usb_handles = quiet_usb\<rparr>"

definition example_driver :: usb_driver where
  "example_driver = new_usb_driver\<lparr>known_ids := [(10462, 4418) \<mapsto> 1]\<rparr>"

definition spaced :: "real list \<Rightarrow> bool" where
  "spaced ts \<longleftrightarrow> sorted_wrt (\<lambda>a b. a + 5 < b) ts"

definition new_attempts :: "usb_driver \<Rightarrow> usb_driver \<Rightarrow> retry_entry list" where
  "new_attempts drv drv' =
     drop (length (attempts (driver_trace drv))) (attempts (driver_trace drv'))"

definition new_batches :: "usb_driver \<Rightarrow> usb_driver \<Rightarrow> real list" where
  "new_batches drv drv' =
     drop (length (batch_times (driver_trace drv))) (batch_times (driver_trace drv'))"

text \<open>Every batch on record started at least 5 seconds before the time the timer holds.\<close>

definition cooled :: "usb_driver \<Rightarrow> bool" where
  "cooled drv \<longleftrightarrow>
     spaced (batch_times (driver_trace drv))
     \<and> list_all (\<lambda>a. a + 5 \<le> retry_devices_timer drv) (batch_times (driver_trace drv))"

definition busy_path :: syspath where
  "busy_path = ''/sys/devices/usb1/1-2''"

definition busy_driver :: usb_driver where
  "busy_driver = snd (handle_new_device busy_environment busy_path 10462 4418 example_driver)"

section \<open>Input mapper (scc/mapper.py)\<close>

subsection \<open>Data\<close>

text \<open>
  The names \<open>LEFT\<close>, \<open>RIGHT\<close>, \<open>CPAD\<close>, \<open>DPAD\<close>, \<open>STICK\<close>, \<open>RSTICK\<close> of scc.constants,
  the force-event flags and the haptic positions. The values behind the names are not part
  of the modelled files; the mapper only compares them and uses them as keys.
\<close>

datatype what = LEFT | RIGHT | CPAD | DPAD | STICK | RSTICK

datatype force_flag = FE_STICK | FE_TRIGGER | FE_PAD

datatype haptic_pos = HapticPos_LEFT | HapticPos_RIGHT | HapticPos_BOTH

text \<open>
  The bit masks of scc.constants that the mapper reads (members of \<open>SCButtons\<close>,
  \<open>STICKTILT\<close>, members of \<open>ControllerFlags\<close>) and the integer value of a haptic
  position, which \<open>send_feedback\<close> uses as a list index. The module is not among the
  modelled files, so its values are a parameter of the mapper.
\<close>

record sc_constants =
  LPAD :: int
  LPADTOUCH :: int
  RPADTOUCH :: int
  CPADTOUCH :: int
  STICKPRESS :: int
  STICKTILT :: int
  SEPARATE_STICK :: int
  IS_DECK :: int
  HAS_RSTICK :: int
  HAS_CPAD :: int
  haptic_index :: "haptic_pos \<Rightarrow> int"

text \<open>One snapshot of the controller, with the attributes \<open>Mapper.input\<close> reads.\<close>

record controller_state =
  state_buttons :: int
  ltrig :: int
  rtrig :: int
  stick_x :: int
  stick_y :: int
  lpad_x :: int
  lpad_y :: int
  rpad_x :: int
  rpad_y :: int
  rstick_x :: int
  rstick_y :: int
  dpad_x :: int
  dpad_y :: int
  cpad_x :: int
  cpad_y :: int
  gpitch :: int
  gyaw :: int
  groll :: int
  q1 :: int
  q2 :: int
  q3 :: int
  q4 :: int

record controller =
  flags :: int
  get_gyro_enabled :: bool

text \<open>
  Modelled from the spec: \<open>scc.controller.HapticData\<close> is not among the modelled files. A
  haptic request carries a position, an amplitude, a period and a count, and
  \<open>with_position\<close> gives the same request for another position (section 4.3, step 11: a
  request for both sides is split into two single-side requests).
\<close>

record haptic_data =
  get_position :: haptic_pos
  amplitude :: int
  period :: int
  pulse_count :: int

definition with_position :: "haptic_pos \<Rightarrow> haptic_data \<Rightarrow> haptic_data" where
  "with_position pos h = h\<lparr>get_position := pos\<rparr>"

text \<open>
  Modelled from the spec: the profile (scc/profile.py is not among the modelled files)
  exposes handlers indexed by button bit mask, a \<open>stick\<close>, an \<open>rstick\<close>, a \<open>gyro\<close>,
  \<open>pads[side]\<close> and \<open>triggers[side]\<close> (section 6). The model keeps what the mapper's
  control flow depends on: the keys of \<open>profile.buttons\<close> in iteration order and the
  keys present in \<open>profile.triggers\<close>.
\<close>

record profile =
  profile_buttons :: "int list"
  profile_triggers :: "what set"

text \<open>The calls the mapper makes on the handlers of the profile.\<close>

datatype dispatch =
    ButtonPress int
  | ButtonRelease int
  | StickWhole int int what
  | RStickWhole int int what
  | GyroCall int int int int int int int
  | TriggerCall what int int
  | PadWhole what int int what

text \<open>
  The mapper's fields that \<open>input\<close>, \<open>send_feedback\<close> and \<open>generate_feedback\<close> read or
  write; \<open>testing\<close> says whether the attribute \<open>_testing\<close> is set. The last three fields
  record what leaves the mapper: the handler calls, the logged errors, and the requests
  passed to \<open>controller.feedback\<close>.
\<close>

record mapper =
  profile :: profile
  controller :: "controller option"
  feedbacks :: "haptic_data option \<times> haptic_data option"
  buttons :: int
  old_buttons :: int
  lpad_touched :: bool
  state :: "controller_state option"
  old_state :: "controller_state option"
  force_event :: "force_flag set"
  testing :: bool
  dispatched :: "dispatch list"
  error_log :: "py_exception list"
  feedback_sent :: "haptic_data list"

text \<open>
  The code behind the handlers and behind \<open>controller.feedback\<close> is outside the modelled
  files: a call either returns or raises, as the environment says. What such a call does
  to the mapper itself (\<open>set_button\<close>, \<open>force_event\<close>) is not modelled.
\<close>

record mapper_environment =
  handler_fault :: "dispatch \<Rightarrow> py_exception option"
  feedback_fault :: "haptic_data \<Rightarrow> py_exception option"

subsection \<open>Statements in sequence\<close>

text \<open>
  A statement takes the mapper and gives the mapper afterwards, with the exception it
  raised, if any. A sequence of statements stops at the first exception.
\<close>

type_synonym statement = "mapper \<Rightarrow> py_exception option \<times> mapper"

fun run_steps :: "statement list \<Rightarrow> statement" where
  "run_steps [] m = (None, m)"
| "run_steps (f # fs) m =
     (case f m of
        (None, m1) \<Rightarrow> run_steps fs m1
      | (Some e, m1) \<Rightarrow> (Some e, m1))"

definition pass :: statement where
  "pass m = (None, m)"

definition call :: "mapper_environment \<Rightarrow> dispatch \<Rightarrow> statement" where
  "call env d m = (handler_fault env d, m\<lparr>dispatched := dispatched m @ [d]\<rparr>)"

text \<open>\<open>self.controller.flags\<close> raises \<open>AttributeError\<close> when no controller is set.\<close>

definition with_self_controller :: "(controller \<Rightarrow> statement) \<Rightarrow> statement" where
  "with_self_controller f m =
     (case controller m of
        None \<Rightarrow> (Some AttributeError, m)
      | Some c \<Rightarrow> f c m)"


subsection \<open>Mapper.input\<close>

text \<open>
  The hardware quirk of lines 409-410: a pad press without pad touch and without stick
  tilt is a stick press.
\<close>

definition quirk :: "sc_constants \<Rightarrow> int \<Rightarrow> int" where
  "quirk k b =
     (if b AND LPAD k \<noteq> 0 \<and> \<not> (b AND (LPADTOUCH k OR STICKTILT k) \<noteq> 0)
      then (b AND NOT (LPAD k)) OR STICKPRESS k
      else b)"

text \<open>
  Lines 421-427: the loop over the keys of \<open>profile.buttons\<close>. A key that meets
  \<open>btn_add\<close> gets \<open>button_press\<close>; otherwise, a key that meets \<open>btn_rem\<close> gets
  \<open>button_release\<close>.
\<close>

fun button_loop :: "mapper_environment \<Rightarrow> int \<Rightarrow> int \<Rightarrow> int list \<Rightarrow> statement" where
  "button_loop env btn_add btn_rem [] m = (None, m)"
| "button_loop env btn_add btn_rem (x # xs) m =
     (if x AND btn_add \<noteq> 0 then
        (case call env (ButtonPress x) m of
           (None, m1) \<Rightarrow> button_loop env btn_add btn_rem xs m1
         | (Some e, m1) \<Rightarrow> (Some e, m1))
      else if x AND btn_rem \<noteq> 0 then
        (case call env (ButtonRelease x) m of
           (None, m1) \<Rightarrow> button_loop env btn_add btn_rem xs m1
         | (Some e, m1) \<Rightarrow> (Some e, m1))
      else button_loop env btn_add btn_rem xs m)"

definition check_buttons :: "mapper_environment \<Rightarrow> int \<Rightarrow> int \<Rightarrow> statement" where
  "check_buttons env btn_add btn_rem m =
     (if btn_add \<noteq> 0 \<or> btn_rem \<noteq> 0
      then button_loop env btn_add btn_rem (profile_buttons (profile m)) m
      else (None, m))"

text \<open>Lines 431-439. \<open>fe\<close> is the set of force-event flags taken at the start of the cycle.\<close>

definition check_sticks ::
  "mapper_environment \<Rightarrow> sc_constants \<Rightarrow> force_flag set \<Rightarrow> controller_state \<Rightarrow> controller_state
     \<Rightarrow> statement" where
  "check_sticks env k fe old st =
     run_steps
       [with_self_controller (\<lambda>c m.
          if flags c AND SEPARATE_STICK k \<noteq> 0 then
            (if FE_STICK \<in> fe \<or> stick_x old \<noteq> stick_x st \<or> stick_y old \<noteq> stick_y st
             then call env (StickWhole (stick_x st) (stick_y st) STICK) m
             else (None, m))
          else if \<not> (buttons m AND LPADTOUCH k \<noteq> 0) then
            (if FE_STICK \<in> fe \<or> lpad_x old \<noteq> lpad_x st \<or> lpad_y old \<noteq> lpad_y st
             then call env (StickWhole (lpad_x st) (lpad_y st) STICK) m
             else (None, m))
          else (None, m)),
        with_self_controller (\<lambda>c m.
          if flags c AND IS_DECK k \<noteq> 0 then
            (if FE_STICK \<in> fe \<or> rstick_x old \<noteq> rstick_x st \<or> rstick_y old \<noteq> rstick_y st
             then call env (RStickWhole (rstick_x st) (rstick_y st) RSTICK) m
             else (None, m))
          else (None, m))]"

text \<open>Lines 442-443; \<open>ctrl\<close> is the controller passed to \<open>input\<close>.\<close>

definition check_gyro :: "mapper_environment \<Rightarrow> controller \<Rightarrow> controller_state \<Rightarrow> statement" where
  "check_gyro env ctrl st m =
     (if get_gyro_enabled ctrl
      then call env (GyroCall (gpitch st) (gyaw st) (groll st) (q1 st) (q2 st) (q3 st) (q4 st)) m
      else (None, m))"

text \<open>Lines 446-451.\<close>

definition check_triggers ::
  "mapper_environment \<Rightarrow> force_flag set \<Rightarrow> controller_state \<Rightarrow> controller_state \<Rightarrow> statement" where
  "check_triggers env fe old st =
     run_steps
       [\<lambda>m. if FE_TRIGGER \<in> fe \<or> ltrig st \<noteq> ltrig old then
               (if LEFT \<in> profile_triggers (profile m)
                then call env (TriggerCall LEFT (ltrig st) (ltrig old)) m
                else (None, m))
             else (None, m),
        \<lambda>m. if FE_TRIGGER \<in> fe \<or> rtrig st \<noteq> rtrig old then
               (if RIGHT \<in> profile_triggers (profile m)
                then call env (TriggerCall RIGHT (rtrig st) (rtrig old)) m
                else (None, m))
             else (None, m)]"

text \<open>Lines 455-462, the right pad.\<close>

definition check_rpad ::
  "mapper_environment \<Rightarrow> sc_constants \<Rightarrow> force_flag set \<Rightarrow> int \<Rightarrow> controller
     \<Rightarrow> controller_state \<Rightarrow> controller_state \<Rightarrow> statement" where
  "check_rpad env k fe btn_rem ctrl old st m =
     (if flags ctrl AND IS_DECK k \<noteq> 0 then
        (if FE_PAD \<in> fe \<or> rpad_x old \<noteq> rpad_x st \<or> rpad_y old \<noteq> rpad_y st
         then call env (PadWhole RIGHT (rpad_x st) (rpad_y st) RIGHT) m
         else (None, m))
      else if flags ctrl AND HAS_RSTICK k \<noteq> 0 then
        (if FE_PAD \<in> fe \<or> rpad_x old \<noteq> rpad_x st \<or> rpad_y old \<noteq> rpad_y st
         then call env (PadWhole RIGHT (rpad_x st) (rpad_y st) RIGHT) m
         else (None, m))
      else if FE_PAD \<in> fe \<or> buttons m AND RPADTOUCH k \<noteq> 0 \<or> RPADTOUCH k AND btn_rem \<noteq> 0
        then call env (PadWhole RIGHT (rpad_x st) (rpad_y st) RIGHT) m
      else (None, m))"

text \<open>Lines 464-466, the D-pad.\<close>

definition check_dpad ::
  "mapper_environment \<Rightarrow> sc_constants \<Rightarrow> force_flag set \<Rightarrow> controller
     \<Rightarrow> controller_state \<Rightarrow> controller_state \<Rightarrow> statement" where
  "check_dpad env k fe ctrl old st m =
     (if flags ctrl AND IS_DECK k \<noteq> 0 then
        (if FE_PAD \<in> fe \<or> dpad_x old \<noteq> dpad_x st \<or> dpad_y old \<noteq> dpad_y st
         then call env (PadWhole DPAD (dpad_x st) (dpad_y st) DPAD) m
         else (None, m))
      else (None, m))"

text \<open>Lines 469-486, the left pad.\<close>

definition check_lpad ::
  "mapper_environment \<Rightarrow> sc_constants \<Rightarrow> force_flag set \<Rightarrow> controller_state \<Rightarrow> controller_state
     \<Rightarrow> statement" where
  "check_lpad env k fe old st =
     with_self_controller (\<lambda>c m.
       if flags c AND SEPARATE_STICK k \<noteq> 0 then
         (if FE_PAD \<in> fe \<or> lpad_x old \<noteq> lpad_x st \<or> lpad_y old \<noteq> lpad_y st
          then call env (PadWhole LEFT (lpad_x st) (lpad_y st) LEFT) m
          else (None, m))
       else if buttons m AND LPADTOUCH k \<noteq> 0 then
         run_steps
           [\<lambda>m. (None, if \<not> lpad_touched m then m\<lparr>lpad_touched := True\<rparr> else m),
            call env (PadWhole LEFT (lpad_x st) (lpad_y st) LEFT),
            \<lambda>m. if state_buttons old AND STICKTILT k \<noteq> 0 \<and> \<not> (buttons m AND STICKTILT k \<noteq> 0)
                 then call env (StickWhole 0 0 STICK) m
                 else (None, m)] m
       else if \<not> (buttons m AND STICKTILT k \<noteq> 0) then
         (if lpad_touched m
          then call env (PadWhole LEFT 0 0 LEFT) (m\<lparr>lpad_touched := False\<rparr>)
          else (None, m))
       else (None, m))"

text \<open>Lines 489-498, the touchpad of a DS4 controller.\<close>

definition check_cpad ::
  "mapper_environment \<Rightarrow> sc_constants \<Rightarrow> force_flag set \<Rightarrow> controller
     \<Rightarrow> controller_state \<Rightarrow> controller_state \<Rightarrow> statement" where
  "check_cpad env k fe ctrl old st m =
     (if flags ctrl AND HAS_CPAD k \<noteq> 0 then
        (if FE_PAD \<in> fe
            \<or> cpad_x old \<noteq> cpad_x st
            \<or> cpad_y old \<noteq> cpad_y st
            \<or> (old_buttons m AND CPADTOUCH k \<noteq> 0 \<and> \<not> (buttons m AND CPADTOUCH k \<noteq> 0))
         then
           (if buttons m AND CPADTOUCH k \<noteq> 0
              then call env (PadWhole CPAD (cpad_x st) (cpad_y st) CPAD) m
            else if old_buttons m AND CPADTOUCH k \<noteq> 0
              then call env (PadWhole CPAD 0 0 CPAD) m
            else (None, m))
         else (None, m))
      else (None, m))"


subsection \<open>Haptic feedback\<close>

text \<open>
  \<open>self.feedbacks\<close> is a list of two slots, created by \<open>__init__\<close> and never resized.
  Assigning to index \<open>i\<close> follows Python's list indexing: \<open>0\<close> and \<open>-2\<close> are the first
  slot, \<open>1\<close> and \<open>-1\<close> the second, anything else raises \<open>IndexError\<close>.
\<close>

definition set_slot ::
  "int \<Rightarrow> haptic_data option \<Rightarrow> haptic_data option \<times> haptic_data option
     \<Rightarrow> py_exception + (haptic_data option \<times> haptic_data option)" where
  "set_slot i v fb =
     (if i = 0 \<or> i = - 2 then Inr (v, snd fb)
      else if i = 1 \<or> i = - 1 then Inr (fst fb, v)
      else Inl IndexError)"

definition send_feedback :: "sc_constants \<Rightarrow> haptic_data \<Rightarrow> statement" where
  "send_feedback k hapticdata m =
     (if get_position hapticdata = HapticPos_BOTH then
        (let m1 = m\<lparr>feedbacks := (Some (with_position HapticPos_LEFT hapticdata), snd (feedbacks m))\<rparr>;
             m2 = m1\<lparr>feedbacks := (fst (feedbacks m1), Some (with_position HapticPos_RIGHT hapticdata))\<rparr>
         in (None, m2))
      else
        (case set_slot (haptic_index k (get_position hapticdata)) (Some hapticdata) (feedbacks m) of
           Inl e \<Rightarrow> (Some e, m)
         | Inr fb \<Rightarrow> (None, m\<lparr>feedbacks := fb\<rparr>)))"

text \<open>
  \<open>Mapper.generate_feedback\<close>: with a controller set, each filled slot is passed to
  \<open>controller.feedback\<close> and then emptied, slot 0 first.
\<close>

definition feedback_slot0 :: "mapper_environment \<Rightarrow> statement" where
  "feedback_slot0 env m =
     (case fst (feedbacks m) of
        None \<Rightarrow> (None, m)
      | Some h \<Rightarrow>
          (let m1 = m\<lparr>feedback_sent := feedback_sent m @ [h]\<rparr>
           in case feedback_fault env h of
                Some e \<Rightarrow> (Some e, m1)
              | None \<Rightarrow> (None, m1\<lparr>feedbacks := (None, snd (feedbacks m1))\<rparr>)))"

definition feedback_slot1 :: "mapper_environment \<Rightarrow> statement" where
  "feedback_slot1 env m =
     (case snd (feedbacks m) of
        None \<Rightarrow> (None, m)
      | Some h \<Rightarrow>
          (let m1 = m\<lparr>feedback_sent := feedback_sent m @ [h]\<rparr>
           in case feedback_fault env h of
                Some e \<Rightarrow> (Some e, m1)
              | None \<Rightarrow> (None, m1\<lparr>feedbacks := (fst (feedbacks m1), None)\<rparr>)))"

definition generate_feedback :: "mapper_environment \<Rightarrow> statement" where
  "generate_feedback env m =
     (if controller m \<noteq> None
      then run_steps [feedback_slot0 env, feedback_slot1 env] m
      else (None, m))"

subsection \<open>The cycle\<close>

text \<open>
  \<open>Mapper.input(controller, old_state, state)\<close>. The states and buttons are stored, the
  quirk is applied, the force-event flags are taken and reset, and the \<open>try\<close> block runs the
  checks in order. An exception of the block is re-raised when \<open>_testing\<close> is set and logged
  otherwise; in the second case, and when there was none, the method goes on to the
  scheduler, \<open>generate_events\<close> and \<open>generate_feedback\<close>. The elapsed-time bookkeeping of
  lines 405-407, \<open>scheduler.run()\<close> and \<open>generate_events()\<close> work on the clock, the scheduler
  and the virtual keyboard and mouse, none of which is read by the checks; they are left
  out of the model.
\<close>

definition dispatch_block ::
  "mapper_environment \<Rightarrow> sc_constants \<Rightarrow> force_flag set \<Rightarrow> controller
     \<Rightarrow> controller_state \<Rightarrow> controller_state \<Rightarrow> statement" where
  "dispatch_block env k fe ctrl old st m =
     (let changed = old_buttons m XOR buttons m;
          btn_rem = changed AND old_buttons m;
          btn_add = changed AND buttons m
      in run_steps
           [check_buttons env btn_add btn_rem,
            check_sticks env k fe old st,
            check_gyro env ctrl st,
            check_triggers env fe old st,
            check_rpad env k fe btn_rem ctrl old st,
            check_dpad env k fe ctrl old st,
            check_lpad env k fe old st,
            check_cpad env k fe ctrl old st] m)"

definition input ::
  "mapper_environment \<Rightarrow> sc_constants \<Rightarrow> controller \<Rightarrow> controller_state \<Rightarrow> controller_state
     \<Rightarrow> statement" where
  "input env k ctrl old st m =
     (let m1 = m\<lparr>old_state := Some old, old_buttons := buttons m\<rparr>;
          m2 = m1\<lparr>state := Some st, buttons := state_buttons st\<rparr>;
          m3 = m2\<lparr>buttons := quirk k (buttons m2)\<rparr>;
          fe = force_event m3;
          m4 = m3\<lparr>force_event := {}\<rparr>
      in case dispatch_block env k fe ctrl old st m4 of
           (None, m5) \<Rightarrow> generate_feedback env m5
         | (Some e, m5) \<Rightarrow>
             if testing m5 then (Some e, m5)
             else generate_feedback env (m5\<lparr>error_log := error_log m5 @ [e]\<rparr>))"

text \<open>The handler calls made by one call of \<open>input\<close>: what it appends to the record.\<close>

definition input_dispatches ::
  "mapper_environment \<Rightarrow> sc_constants \<Rightarrow> controller \<Rightarrow> controller_state \<Rightarrow> controller_state
     \<Rightarrow> mapper \<Rightarrow> dispatch list" where
  "input_dispatches env k ctrl old st m =
     drop (length (dispatched m)) (dispatched (snd (input env k ctrl old st m)))"

text \<open>Consecutive cycles: each element is the \<open>(controller, old_state, state)\<close> of one call.\<close>

fun input_cycles ::
  "mapper_environment \<Rightarrow> sc_constants \<Rightarrow> (controller \<times> controller_state \<times> controller_state) list
     \<Rightarrow> mapper \<Rightarrow> mapper" where
  "input_cycles env k [] m = m"
| "input_cycles env k ((ctrl, old, st) # cycles) m =
     input_cycles env k cycles (snd (input env k ctrl old st m))"


subsection \<open>Example values\<close>

text \<open>\<open>Mapper.__init__\<close>, for the fields of the model.\<close>

definition init_mapper :: "profile \<Rightarrow> mapper" where
  "init_mapper p =
     \<lparr>profile = p, controller = None, feedbacks = (None, None), buttons = 0, old_buttons = 0,
      lpad_touched = False, state = None, old_state = None, force_event = {}, testing = False,
      dispatched = [], error_log = [], feedback_sent = []\<rparr>"

definition set_controller :: "controller \<Rightarrow> mapper \<Rightarrow> mapper" where
  "set_controller c m = m\<lparr>controller := Some c\<rparr>"

text \<open>One assignment of distinct bits to the constants, used to evaluate the model.\<close>

definition example_constants :: sc_constants where
  "example_constants =
     \<lparr>LPAD = 0x02000000, LPADTOUCH = 0x08000000, RPADTOUCH = 0x10000000, CPADTOUCH = 0x04,
      STICKPRESS = 0x40000000, STICKTILT = 0x80000000,
      SEPARATE_STICK = 0x02, IS_DECK = 0x40, HAS_RSTICK = 0x01, HAS_CPAD = 0x08,
      haptic_index = (\<lambda>pos. case pos of
                        HapticPos_RIGHT \<Rightarrow> 0 | HapticPos_LEFT \<Rightarrow> 1 | HapticPos_BOTH \<Rightarrow> 2)\<rparr>"

definition idle_state :: controller_state where
  "idle_state =
     \<lparr>state_buttons = 0, ltrig = 0, rtrig = 0, stick_x = 0, stick_y = 0, lpad_x = 0, lpad_y = 0,
      rpad_x = 0, rpad_y = 0, rstick_x = 0, rstick_y = 0, dpad_x = 0, dpad_y = 0,
      cpad_x = 0, cpad_y = 0, gpitch = 0, gyaw = 0, groll = 0, q1 = 0, q2 = 0, q3 = 0, q4 = 0\<rparr>"

definition plain_controller :: controller where
  "plain_controller = \<lparr>flags = 0, get_gyro_enabled = False\<rparr>"

definition example_profile :: profile where
  "example_profile =
     \<lparr>profile_buttons = [0x8000, 0x4000, 0x40000000, 0x02000000],
      profile_triggers = {LEFT, RIGHT}\<rparr>"

definition example_mapper :: mapper where
  "example_mapper = set_controller plain_controller (init_mapper example_profile)"

definition quiet_handlers :: mapper_environment where
  "quiet_handlers = \<lparr>handler_fault = (\<lambda>d. None), feedback_fault = (\<lambda>h. None)\<rparr>"

text \<open>The environment in which the call \<open>d0\<close> raises and every other call returns.\<close>

definition faulty :: "dispatch \<Rightarrow> mapper_environment" where
  "faulty d0 =
     \<lparr>handler_fault = (\<lambda>d. if d = d0 then Some ActionError else None),
      feedback_fault = (\<lambda>h. None)\<rparr>"

definition example_haptic :: haptic_data where
  "example_haptic =
     \<lparr>get_position = HapticPos_BOTH, amplitude = 600, period = 25000, pulse_count = 3\<rparr>"


definition touched_mapper :: mapper where
  "touched_mapper = example_mapper\<lparr>buttons := 0x08000000, lpad_touched := True\<rparr>"

definition right_touch_state :: controller_state where
  "right_touch_state = idle_state\<lparr>state_buttons := 0x10000000, rpad_x := 100, rpad_y := 50\<rparr>"

subsection \<open>Vocabulary for statements about the cycle\<close>

fun is_button :: "dispatch \<Rightarrow> bool" where
  "is_button (ButtonPress x) = True"
| "is_button (ButtonRelease x) = True"
| "is_button d = False"

text \<open>A statement that does nothing to the record of handler calls but append calls that
  satisfy \<open>P\<close>.\<close>

definition appends :: "(dispatch \<Rightarrow> bool) \<Rightarrow> statement \<Rightarrow> bool" where
  "appends P f \<longleftrightarrow> (\<forall>m. \<exists>ds. dispatched (snd (f m)) = dispatched m @ ds \<and> list_all P ds)"

text \<open>The calls of the button loop when every handler returns.\<close>

fun button_calls :: "int \<Rightarrow> int \<Rightarrow> int list \<Rightarrow> dispatch list" where
  "button_calls btn_add btn_rem [] = []"
| "button_calls btn_add btn_rem (x # xs) =
     (if x AND btn_add \<noteq> 0 then ButtonPress x # button_calls btn_add btn_rem xs
      else if x AND btn_rem \<noteq> 0 then ButtonRelease x # button_calls btn_add btn_rem xs
      else button_calls btn_add btn_rem xs)"


text \<open>
  Calls made one after the other, of which the first that raises is the last one made;
  and the exception that ends them, if any.
\<close>

fun until_raise :: "mapper_environment \<Rightarrow> dispatch list \<Rightarrow> dispatch list" where
  "until_raise env [] = []"
| "until_raise env (d # ds) =
     (if handler_fault env d = None then d # until_raise env ds else [d])"

fun raised :: "mapper_environment \<Rightarrow> dispatch list \<Rightarrow> py_exception option" where
  "raised env [] = None"
| "raised env (d # ds) =
     (case handler_fault env d of
        None \<Rightarrow> raised env ds
      | Some e \<Rightarrow> Some e)"

text \<open>
  A statement that, started with \<open>Q\<close>, ends with \<open>Q\<close> and has appended only calls that
  satisfy \<open>P\<close>, whether it returned or raised; and a statement that, started with \<open>Q\<close>,
  returns exactly when every handler call it made returned.
\<close>

definition triple :: "(mapper \<Rightarrow> bool) \<Rightarrow> statement \<Rightarrow> (dispatch \<Rightarrow> bool) \<Rightarrow> bool" where
  "triple Q f P \<longleftrightarrow>
     (\<forall>m. Q m \<longrightarrow> Q (snd (f m))
        \<and> (\<exists>ds. dispatched (snd (f m)) = dispatched m @ ds \<and> list_all P ds))"

definition call_bound :: "mapper_environment \<Rightarrow> (mapper \<Rightarrow> bool) \<Rightarrow> statement \<Rightarrow> bool" where
  "call_bound env Q f \<longleftrightarrow>
     (\<forall>m. Q m \<longrightarrow>
        (fst (f m) = None
           \<longleftrightarrow> list_all (\<lambda>d. handler_fault env d = None)
                 (drop (length (dispatched m)) (dispatched (snd (f m))))))"

fun is_left_pad :: "dispatch \<Rightarrow> bool" where
  "is_left_pad (PadWhole LEFT x y w) = True"
| "is_left_pad d = False"

fun is_gyro :: "dispatch \<Rightarrow> bool" where
  "is_gyro (GyroCall gp gy gr a b c d) = True"
| "is_gyro d = False"

text \<open>
  The calls that an unchanged state can still cause: the gyro call, and the call for a pad
  that is being touched (the right pad on a controller that is neither a Deck nor has a
  right stick, the left pad on a controller without a separate stick).
\<close>

definition repeat_call ::
  "sc_constants \<Rightarrow> controller \<Rightarrow> controller_state \<Rightarrow> controller option \<Rightarrow> dispatch \<Rightarrow> bool" where
  "repeat_call k ctrl st C d \<longleftrightarrow>
     is_gyro d
     \<or> (d = PadWhole RIGHT (rpad_x st) (rpad_y st) RIGHT
        \<and> quirk k (state_buttons st) AND RPADTOUCH k \<noteq> 0
        \<and> flags ctrl AND IS_DECK k = 0 \<and> flags ctrl AND HAS_RSTICK k = 0)
     \<or> (d = PadWhole LEFT (lpad_x st) (lpad_y st) LEFT
        \<and> quirk k (state_buttons st) AND LPADTOUCH k \<noteq> 0
        \<and> (case C of
              None \<Rightarrow> False
            | Some c \<Rightarrow> flags c AND SEPARATE_STICK k = 0))"

text \<open>
  The mapper holds the buttons of state \<open>st\<close>, and the touch mark of the left pad is not
  left over: it is set only while the pad is touched or the stick tilted (or the
  controller has a separate stick, where the mark is not used).
\<close>

definition settled :: "sc_constants \<Rightarrow> controller_state \<Rightarrow> mapper \<Rightarrow> bool" where
  "settled k st m \<longleftrightarrow>
     buttons m = quirk k (state_buttons st)
     \<and> (lpad_touched m \<longrightarrow>
           buttons m AND LPADTOUCH k \<noteq> 0
         \<or> buttons m AND STICKTILT k \<noteq> 0
         \<or> (case controller m of
               None \<Rightarrow> True
             | Some c \<Rightarrow> flags c AND SEPARATE_STICK k \<noteq> 0))"

text \<open>
  Two mappers that differ at most in the record of calls and in the touch mark of the left
  pad; a statement that changes nothing else.
\<close>

definition same_fields :: "mapper \<Rightarrow> mapper \<Rightarrow> bool" where
  "same_fields m m' \<longleftrightarrow>
     profile m' = profile m \<and> controller m' = controller m \<and> feedbacks m' = feedbacks m
     \<and> buttons m' = buttons m \<and> old_buttons m' = old_buttons m
     \<and> state m' = state m \<and> old_state m' = old_state m
     \<and> force_event m' = force_event m \<and> testing m' = testing m
     \<and> error_log m' = error_log m \<and> feedback_sent m' = feedback_sent m"

definition touches_only :: "statement \<Rightarrow> bool" where
  "touches_only f \<longleftrightarrow> (\<forall>m. same_fields m (snd (f m)))"

definition steady :: "sc_constants \<Rightarrow> controller_state \<Rightarrow> controller option \<Rightarrow> mapper \<Rightarrow> bool" where
  "steady k st C m \<longleftrightarrow> settled k st m \<and> old_buttons m = buttons m \<and> controller m = C"

section \<open>Theorems: device monitor\<close>

lemma add_callback_fresh:
  "(subsystem, vendor_id, product_id) \<notin> dom (dev_added_cbs m) \<Longrightarrow>
   add_callback subsystem vendor_id product_id a r m =
     (None, m\<lparr>dm_trace := dm_trace m @ [MatchSubsystem subsystem],
              dev_added_cbs := (dev_added_cbs m)((subsystem, vendor_id, product_id) \<mapsto> a),
              dev_removed_cbs := (dev_removed_cbs m)((subsystem, vendor_id, product_id) \<mapsto> r)\<rparr>)"
  by (simp add: add_callback_def Let_def dm_emit_def)

lemma add_callback_success_registers:
  assumes "add_callback subsystem vendor_id product_id a r m = (None, m1)"
  shows "dev_added_cbs m1 (subsystem, vendor_id, product_id) = Some a"
    and "dev_removed_cbs m1 (subsystem, vendor_id, product_id) = Some r"
  using assms
  by (auto simp: add_callback_def Let_def dm_emit_def split: if_splits)

text \<open>
  Claim C4. Once \<open>add_callback\<close> has succeeded for a key \<open>(subsystem, vendor_id,
  product_id)\<close>, a second call with the same key fails with the assertion's exception and
  returns the monitor of the first call untouched: both callback maps still hold the pair
  stored by the first call.
\<close>

theorem add_callback_duplicate_fails:
  assumes "add_callback subsystem vendor_id product_id a r m = (None, m1)"
  shows "add_callback subsystem vendor_id product_id a' r' m1 = (Some AssertionError, m1)
         \<and> dev_added_cbs m1 (subsystem, vendor_id, product_id) = Some a
         \<and> dev_removed_cbs m1 (subsystem, vendor_id, product_id) = Some r"
proof -
  have stored: "dev_added_cbs m1 (subsystem, vendor_id, product_id) = Some a"
    "dev_removed_cbs m1 (subsystem, vendor_id, product_id) = Some r"
    using add_callback_success_registers [OF assms] by simp_all
  then have "(subsystem, vendor_id, product_id) \<in> dom (dev_added_cbs m1)"
    by blast
  then have "add_callback subsystem vendor_id product_id a' r' m1 = (Some AssertionError, m1)"
    by (simp add: add_callback_def)
  with stored show ?thesis by simp
qed

theorem add_callback_duplicate_fails_witness:
  "add_callback ''usb'' (Some 10462) (Some 4418) 7 None usb_monitor
     = (Some AssertionError, usb_monitor)
   \<and> dev_added_cbs usb_monitor (''usb'', Some 10462, Some 4418) = Some 1
   \<and> dev_removed_cbs usb_monitor (''usb'', Some 10462, Some 4418) = Some (Some 2)"
proof -
  have first: "add_callback ''usb'' (Some 10462) (Some 4418) 1 (Some 2) empty_monitor
                 = (None, usb_monitor)"
    by (simp add: usb_monitor_def add_callback_def empty_monitor_def Let_def)
  show ?thesis
    using add_callback_duplicate_fails [OF first, of 7 None] by simp
qed

lemma on_new_syspath_not_accepted:
  "resolve_identity env subsystem syspath = Some (vendor, product) \<Longrightarrow>
   dev_added_cbs m (subsystem, vendor, product) = None \<Longrightarrow>
   on_new_syspath env subsystem syspath m = (None, m)"
  by (auto simp: on_new_syspath_def resolve_identity_def Let_def
           split: if_splits sum.splits prod.splits)

text \<open>
  Claim C3, as the code has it. For an accepted arrival (the identity is resolved and an
  arrival callback is registered for it) \<open>_on_new_syspath\<close> first stores the bus path in
  \<open>known_devs\<close> and then calls the arrival callback. If the callback raises, the exception
  is logged, the bus path is removed again and nothing leaves the method; if the callback
  returns \<open>None\<close>, the bus path is removed again. Any other return value, \<open>False\<close>
  included, leaves the bus path in \<open>known_devs\<close>.
\<close>

theorem on_new_syspath_accepted:
  assumes "resolve_identity env subsystem syspath = Some (vendor, product)"
      and "dev_added_cbs m (subsystem, vendor, product) = Some cb"
  shows "fst (on_new_syspath env subsystem syspath m) = None
       \<and> dm_trace (snd (on_new_syspath env subsystem syspath m)) =
           dm_trace m @ [Registered syspath, ArrivalCalled cb syspath vendor product]
             @ (case arrival env cb syspath vendor product of
                  Returns None \<Rightarrow> [Unregistered syspath]
                | Returns (Some r) \<Rightarrow> []
                | Raises e \<Rightarrow> [Logged e, Unregistered syspath])
       \<and> known_devs (snd (on_new_syspath env subsystem syspath m)) =
           (case arrival env cb syspath vendor product of
              Returns (Some r) \<Rightarrow>
                (known_devs m)(syspath \<mapsto>
                   (vendor, product, removed_cb_get m (subsystem, vendor, product)))
            | _ \<Rightarrow> (known_devs m)(syspath := None))"
  using assms
  by (auto simp: on_new_syspath_def resolve_identity_def Let_def dm_emit_def del_known_dev_def
           split: if_splits sum.splits cb_result.splits option.splits prod.splits)

theorem on_new_syspath_accepted_witness:
  "resolve_identity (env_returning (Raises ActionError)) ''usb'' ''/sys/devices/usb1/1-1''
     = Some (Some 10462, Some 4418)
   \<and> dev_added_cbs usb_monitor (''usb'', Some 10462, Some 4418) = Some 1
   \<and> fst (on_new_syspath (env_returning (Raises ActionError)) ''usb''
             ''/sys/devices/usb1/1-1'' usb_monitor) = None
   \<and> dm_trace (snd (on_new_syspath (env_returning (Raises ActionError)) ''usb''
                  ''/sys/devices/usb1/1-1'' usb_monitor)) =
       [MatchSubsystem ''usb'', Registered ''/sys/devices/usb1/1-1'',
        ArrivalCalled 1 ''/sys/devices/usb1/1-1'' (Some 10462) (Some 4418),
        Logged ActionError, Unregistered ''/sys/devices/usb1/1-1'']
   \<and> known_devs (snd (on_new_syspath (env_returning (Raises ActionError)) ''usb''
                  ''/sys/devices/usb1/1-1'' usb_monitor)) ''/sys/devices/usb1/1-1'' = None"
proof -
  have h1: "resolve_identity (env_returning (Raises ActionError)) ''usb''
              ''/sys/devices/usb1/1-1'' = Some (Some 10462, Some 4418)"
    by (simp add: resolve_identity_def env_returning_def)
  have h2: "dev_added_cbs usb_monitor (''usb'', Some 10462, Some 4418) = Some 1"
    by (simp add: usb_monitor_def add_callback_def empty_monitor_def Let_def dm_emit_def)
  have tr: "dm_trace usb_monitor = [MatchSubsystem ''usb'']"
    by (simp add: usb_monitor_def add_callback_def empty_monitor_def Let_def dm_emit_def)
  have out: "arrival (env_returning (Raises ActionError)) cb sp v p = Raises ActionError"
    for cb sp v p
    by (simp add: env_returning_def)
  show ?thesis
    using on_new_syspath_accepted [OF h1 h2] h1 h2
    by (simp add: out tr)
qed

text \<open>
  The claim as stated also promises removal when the callback returns a false value.
  \<open>USBDriver.handle_new_device\<close> returns \<open>False\<close> for a known device that its driver
  ignored; the monitor then keeps the bus path.
\<close>

theorem on_new_syspath_false_keeps_entry:
  "known_devs (snd (on_new_syspath (env_returning (Returns (Some False))) ''usb''
                 ''/sys/devices/usb1/1-1'' usb_monitor)) ''/sys/devices/usb1/1-1''
     = Some (Some 10462, Some 4418, Some 2)"
  by (simp add: on_new_syspath_def env_returning_def usb_monitor_def add_callback_def
        empty_monitor_def Let_def dm_emit_def removed_cb_get_def)

section \<open>Theorems: USB control queue\<close>

lemma subseq_rev: "subseq xs ys \<Longrightarrow> subseq (rev xs) (rev ys)"
proof (induction rule: list_emb.induct)
  case (list_emb_Nil ys)
  then show ?case by simp
next
  case (list_emb_Cons xs ys y)
  then show ?case by (simp add: subseq_rev_drop_many)
next
  case (list_emb_Cons2 x y xs ys)
  then show ?case by simp
qed

lemma subseq_remove1: "subseq (remove1 x xs) xs"
  by (induction xs) auto

lemma written_msgs_append: "written_msgs (xs @ ys) = written_msgs xs @ written_msgs ys"
  by (induction xs rule: written_msgs.induct) auto

lemma written_msgs_map:
  "written_msgs (map (\<lambda>(a, b, c, i, dt, t). ControlWrite a b c i dt (Some t)) ms) = ms"
  by (induction ms) auto

lemma flush_cmsg_quiet:
  assumes "\<forall>w. write_fault env w = None"
  shows "flush_cmsg env d =
           (None, d\<lparr>cmsg := [],
                    usb_io := usb_io d @
                      map (\<lambda>(a, b, c, i, dt, t). ControlWrite a b c i dt (Some t)) (rev (cmsg d))\<rparr>)"
  using assms
proof (induction env d rule: flush_cmsg.induct)
  case (1 env d)
  show ?case
  proof (cases "cmsg d = []")
    case True
    then show ?thesis by (simp add: flush_cmsg.simps)
  next
    case False
    then obtain xs x where q: "cmsg d = xs @ [x]"
      by (metis append_butlast_last_id)
    obtain a b c i dt t where x: "x = (a, b, c, i, dt, t)"
      by (cases x) auto
    show ?thesis
      using 1 q x False
      by (subst flush_cmsg.simps) (simp add: io_emit_def Let_def)
  qed
qed

lemma flush_rmsg_written:
  "written_msgs (usb_io (snd (flush_rmsg env d))) = written_msgs (usb_io d)"
proof (induction env d rule: flush_rmsg.induct)
  case (1 env d)
  show ?case
  proof (cases "rmsg d = []")
    case True
    then show ?thesis by (simp add: flush_rmsg.simps)
  next
    case False
    show ?thesis
      using 1 False
      by (subst flush_rmsg.simps)
         (auto simp add: io_emit_def Let_def written_msgs_append
               split: prod.splits option.splits sum.splits)
  qed
qed

lemma flush_written:
  assumes "\<forall>w. write_fault env w = None"
  shows "written_msgs (usb_io (snd (flush env d))) = written_msgs (usb_io d) @ rev (cmsg d)"
  by (simp add: flush_def flush_cmsg_quiet [OF assms] flush_rmsg_written
        written_msgs_append written_msgs_map)

lemma cmsg_apply_call:
  "\<exists>q. cmsg (apply_call c d) = scheduled_msg c # q \<and> subseq q (cmsg d)"
  by (cases c)
     (auto simp: send_control_def overwrite_control_def subseq_remove1 split: option.splits)

lemma usb_io_apply_calls: "usb_io (apply_calls cs d) = usb_io d"
proof (induction cs arbitrary: d)
  case Nil
  then show ?case by simp
next
  case (Cons c cs)
  have "usb_io (apply_call c d) = usb_io d"
    by (cases c) (auto simp: send_control_def overwrite_control_def split: option.splits)
  with Cons.IH show ?case by simp
qed

lemma queue_in_scheduling_order:
  "subseq (rev (cmsg (apply_calls cs d))) (rev (cmsg d) @ map scheduled_msg cs)"
proof (induction cs arbitrary: d)
  case Nil
  then show ?case by simp
next
  case (Cons c cs)
  obtain q where q: "cmsg (apply_call c d) = scheduled_msg c # q" "subseq q (cmsg d)"
    using cmsg_apply_call by blast
  have "subseq (rev (cmsg (apply_calls cs (apply_call c d))))
          (rev (cmsg (apply_call c d)) @ map scheduled_msg cs)"
    by (rule Cons.IH)
  also have "rev (cmsg (apply_call c d)) @ map scheduled_msg cs
               = rev q @ scheduled_msg c # map scheduled_msg cs"
    by (simp add: q)
  finally have "subseq (rev (cmsg (apply_calls cs (apply_call c d))))
                  (rev q @ map scheduled_msg (c # cs))"
    by simp
  moreover have "subseq (rev q @ map scheduled_msg (c # cs))
                   (rev (cmsg d) @ map scheduled_msg (c # cs))"
    using q(2) by (simp add: subseq_rev)
  ultimately show ?case
    using subseq_order.trans by fastforce
qed

lemma newest_at_front:
  "cs \<noteq> [] \<Longrightarrow> \<exists>q. cmsg (apply_calls cs d) = scheduled_msg (last cs) # q"
proof (induction cs arbitrary: d)
  case Nil
  then show ?case by simp
next
  case (Cons c cs)
  show ?case
  proof (cases "cs = []")
    case True
    then show ?thesis using cmsg_apply_call [of c d] by auto
  next
    case False
    then show ?thesis using Cons.IH [of "apply_call c d"] by simp
  qed
qed

lemma send_only_queue:
  "list_all is_send cs \<Longrightarrow>
   rev (cmsg (apply_calls cs d)) = rev (cmsg d) @ map scheduled_msg cs"
proof (induction cs arbitrary: d)
  case Nil
  then show ?case by simp
next
  case (Cons c cs)
  then obtain index data where c: "c = SendControl index data"
    by (cases c) auto
  with Cons show ?case by (simp add: send_control_def)
qed

text \<open>
  Claim C5, as the code has it. \<open>send_control\<close> inserts at the front of the queue and
  \<open>flush\<close> pops from its end, so the writes go out first in, first out. With no write
  raising, the flush after any sequence of scheduling calls writes the whole queue from its
  end to its front; these writes keep the order in which the messages were scheduled
  (messages already queued first, then the calls in their order, overwritten ones left
  out); the most recently scheduled message is written last; and when only
  \<open>send_control\<close> was called, the writes are exactly the scheduled messages, oldest first.
\<close>

theorem flush_writes_oldest_first:
  assumes "\<forall>w. write_fault env w = None"
  shows "written_msgs (usb_io (snd (flush env (apply_calls cs d)))) =
           written_msgs (usb_io d) @ rev (cmsg (apply_calls cs d))
       \<and> subseq (rev (cmsg (apply_calls cs d))) (rev (cmsg d) @ map scheduled_msg cs)
       \<and> (cs \<noteq> [] \<longrightarrow> last (rev (cmsg (apply_calls cs d))) = scheduled_msg (last cs))
       \<and> (list_all is_send cs \<longrightarrow>
            rev (cmsg (apply_calls cs d)) = rev (cmsg d) @ map scheduled_msg cs)"
proof -
  have "cs \<noteq> [] \<Longrightarrow> last (rev (cmsg (apply_calls cs d))) = scheduled_msg (last cs)"
    using newest_at_front [of cs d] by (auto simp: last_rev)
  then show ?thesis
    using flush_written [OF assms, of "apply_calls cs d"]
    by (simp add: usb_io_apply_calls queue_in_scheduling_order send_only_queue)
qed

theorem flush_writes_oldest_first_witness:
  "written_msgs (usb_io (snd (flush quiet_usb
     (apply_calls [SendControl 1 [1], SendControl 2 [2], SendControl 1 [3]] new_usb_device))))
   = [control_packet 1 [1], control_packet 2 [2], control_packet 1 [3]]"
proof -
  have quiet: "\<forall>w. write_fault quiet_usb w = None"
    by (simp add: quiet_usb_def)
  have sends: "list_all is_send [SendControl 1 [1], SendControl 2 [2], SendControl 1 [3]]"
    by simp
  show ?thesis
    using flush_writes_oldest_first [OF quiet,
            of "[SendControl 1 [1], SendControl 2 [2], SendControl 1 [3]]" new_usb_device] sends
    by (simp add: new_usb_device_def)
qed

text \<open>
  The claim as stated has the most recently scheduled message written first. Two
  messages scheduled one after the other are written in the order of the calls.
\<close>

theorem flush_not_newest_first:
  "written_msgs (usb_io (snd (flush quiet_usb
     (send_control 2 [2] (send_control 1 [1] new_usb_device)))))
   = [control_packet 1 [1], control_packet 2 [2]]"
proof -
  have quiet: "\<forall>w. write_fault quiet_usb w = None"
    by (simp add: quiet_usb_def)
  show ?thesis
    by (simp add: flush_written [OF quiet] send_control_def new_usb_device_def)
qed

lemma msg_index_packet: "msg_index (control_packet index data) = index"
  by (simp add: msg_index_def control_packet_def)

lemma find_none_for_index:
  "\<forall>x \<in> set q. msg_index x \<noteq> index \<Longrightarrow> find (overwrites index data) q = None"
  by (induction q) (auto simp: overwrites_def msg_index_def)

lemma overwrites_packet:
  "3 \<le> length d1 \<Longrightarrow> take 3 d1 = take 3 d2 \<Longrightarrow>
   overwrites index d2 (control_packet index d1)"
  by (simp add: overwrites_def control_packet_def)

lemma cmsg_overwrite_control:
  "cmsg (overwrite_control index data d) =
     control_packet index data #
       (case find (overwrites index data) (cmsg d) of
          None \<Rightarrow> cmsg d
        | Some x \<Rightarrow> remove1 x (cmsg d))"
  by (simp add: overwrite_control_def send_control_def split: option.splits)

text \<open>
  Claim C6, as the code has it. On a device whose queue holds no message for \<open>index\<close>,
  \<open>overwrite_control(index, d1)\<close> followed by \<open>overwrite_control(index, d2)\<close>, with \<open>d1\<close>
  of at least three bytes and \<open>d2\<close> agreeing with it on the first three, leaves exactly one
  queued message for \<open>index\<close>: the one carrying \<open>d2\<close> (padded to 64 bytes), in front of
  the messages queued before. The entry of the first call is gone.
\<close>

theorem overwrite_control_supersedes:
  assumes "\<forall>x \<in> set (cmsg d). msg_index x \<noteq> index"
      and "3 \<le> length d1"
      and "take 3 d1 = take 3 d2"
  shows "queued_for index (overwrite_control index d2 (overwrite_control index d1 d))
           = [control_packet index d2]
       \<and> cmsg (overwrite_control index d2 (overwrite_control index d1 d))
           = control_packet index d2 # cmsg d"
proof -
  have none: "find (overwrites index d1) (cmsg d) = None"
    by (rule find_none_for_index [OF assms(1)])
  have first: "cmsg (overwrite_control index d1 d) = control_packet index d1 # cmsg d"
    by (simp add: cmsg_overwrite_control none)
  have second: "cmsg (overwrite_control index d2 (overwrite_control index d1 d))
                  = control_packet index d2 # cmsg d"
    using overwrites_packet [OF assms(2,3), of index]
    by (simp add: cmsg_overwrite_control [of index d2] first)
  have "filter (\<lambda>x. msg_index x = index) (cmsg d) = []"
    using assms(1) by (simp add: filter_empty_conv)
  then show ?thesis
    by (simp add: queued_for_def second msg_index_packet)
qed

theorem overwrite_control_supersedes_witness:
  "queued_for 3 (overwrite_control 3 [1, 2, 3, 5]
                  (overwrite_control 3 [1, 2, 3, 4] new_usb_device))
     = [control_packet 3 [1, 2, 3, 5]]"
proof -
  have h1: "\<forall>x \<in> set (cmsg new_usb_device). msg_index x \<noteq> 3"
    by (simp add: new_usb_device_def)
  have h2: "3 \<le> length [1, 2, 3, 4 :: 8 word]"
    by simp
  have h3: "take 3 [1, 2, 3, 4 :: 8 word] = take 3 [1, 2, 3, 5]"
    by simp
  show ?thesis
    using overwrite_control_supersedes [OF h1 h2 h3] by simp
qed

text \<open>
  The claim as stated is for every device and every two data agreeing on
  \<open>data[0:3]\<close>. It fails for data shorter than three bytes, since the queued data is
  compared after padding and the new data before: two messages stay queued. It fails
  too on a device that already holds a message for the index with other leading bytes.
\<close>

theorem overwrite_control_two_queued:
  "queued_for 3 (overwrite_control 3 [1, 2] (overwrite_control 3 [1, 2] new_usb_device))
     = [control_packet 3 [1, 2], control_packet 3 [1, 2]]
   \<and> queued_for 3 (overwrite_control 3 [1, 2, 3, 5] (overwrite_control 3 [1, 2, 3, 4]
                     (send_control 3 [9, 9, 9] new_usb_device)))
     = [control_packet 3 [1, 2, 3, 5], control_packet 3 [9, 9, 9]]"
  by (simp add: queued_for_def overwrite_control_def send_control_def new_usb_device_def
        overwrites_def control_packet_def msg_index_def)

section \<open>Theorems: interrupt reads\<close>

text \<open>
  Claim C10. A completion whose status is not \<open>TRANSFER_COMPLETED\<close> or whose actual
  length differs from the expected size makes the wrapper return at once: no call of the
  user callback and no resubmission, so the read is not armed again. The user callback is
  called, and the transfer resubmitted, exactly for a completed transfer of the expected
  length; then the callback comes first and the resubmission after it, also when the
  callback raised.
\<close>

theorem callback_wrapper_rearms_only_exact:
  "(getStatus t \<noteq> TRANSFER_COMPLETED \<or> getActualLength t \<noteq> sz \<longrightarrow>
      callback_wrapper env endpoint sz cb t = [])
   \<and> (TransferSubmit \<in> set (callback_wrapper env endpoint sz cb t)
        \<longleftrightarrow> getStatus t = TRANSFER_COMPLETED \<and> getActualLength t = sz)
   \<and> ((\<exists>c e data. InputCallback c e data \<in> set (callback_wrapper env endpoint sz cb t))
        \<longleftrightarrow> getStatus t = TRANSFER_COMPLETED \<and> getActualLength t = sz)
   \<and> (getStatus t = TRANSFER_COMPLETED \<and> getActualLength t = sz \<longrightarrow>
        (\<exists>rest. callback_wrapper env endpoint sz cb t
                   = InputCallback cb endpoint (getBuffer t) # rest
                \<and> TransferSubmit \<in> set rest
                \<and> (\<forall>c e data. InputCallback c e data \<notin> set rest)))"
  by (auto simp: callback_wrapper_def Let_def split: option.splits)

theorem callback_wrapper_rearms_only_exact_witness:
  "callback_wrapper failing_callback 3 64 5 (example_transfer TRANSFER_COMPLETED 63) = []
   \<and> callback_wrapper failing_callback 3 64 5 (example_transfer TRANSFER_TIMED_OUT 64) = []
   \<and> callback_wrapper failing_callback 3 64 5 (example_transfer TRANSFER_COMPLETED 64)
       = [InputCallback 5 3 [7, 7], ErrorLogged ActionError, TransferSubmit]"
proof -
  have short: "getStatus (example_transfer TRANSFER_COMPLETED 63) \<noteq> TRANSFER_COMPLETED
                 \<or> getActualLength (example_transfer TRANSFER_COMPLETED 63) \<noteq> 64"
    by (simp add: example_transfer_def)
  have timed_out: "getStatus (example_transfer TRANSFER_TIMED_OUT 64) \<noteq> TRANSFER_COMPLETED
                     \<or> getActualLength (example_transfer TRANSFER_TIMED_OUT 64) \<noteq> 64"
    by (simp add: example_transfer_def)
  have exact: "callback_wrapper failing_callback 3 64 5 (example_transfer TRANSFER_COMPLETED 64)
                 = [InputCallback 5 3 [7, 7], ErrorLogged ActionError, TransferSubmit]"
    by (simp add: callback_wrapper_def example_transfer_def failing_callback_def)
  show ?thesis
    using callback_wrapper_rearms_only_exact
            [of "example_transfer TRANSFER_COMPLETED 63" 64 failing_callback 3 5]
          callback_wrapper_rearms_only_exact
            [of "example_transfer TRANSFER_TIMED_OUT 64" 64 failing_callback 3 5]
          short timed_out exact
    by simp
qed

section \<open>Theorems: haptic feedback\<close>

text \<open>
  Claim C9. A request with position \<open>BOTH\<close> fills the two feedback slots, one with the
  request for \<open>LEFT\<close> and one with the request for \<open>RIGHT\<close>, both with the amplitude of
  the request. One \<open>generate_feedback\<close> on a mapper with a controller, whose \<open>feedback\<close>
  method returns normally, passes both to the controller and leaves both slots empty.
\<close>

theorem send_feedback_both_sides:
  assumes "get_position h = HapticPos_BOTH"
      and "controller m \<noteq> None"
      and "\<forall>x. feedback_fault env x = None"
  shows "send_feedback k h m =
           (None, m\<lparr>feedbacks := (Some (with_position HapticPos_LEFT h),
                                    Some (with_position HapticPos_RIGHT h))\<rparr>)
       \<and> amplitude (with_position HapticPos_LEFT h) = amplitude h
       \<and> get_position (with_position HapticPos_LEFT h) = HapticPos_LEFT
       \<and> amplitude (with_position HapticPos_RIGHT h) = amplitude h
       \<and> get_position (with_position HapticPos_RIGHT h) = HapticPos_RIGHT
       \<and> generate_feedback env (snd (send_feedback k h m)) =
           (None, m\<lparr>feedbacks := (None, None),
                    feedback_sent := feedback_sent m @
                      [with_position HapticPos_LEFT h, with_position HapticPos_RIGHT h]\<rparr>)"
  using assms
  by (auto simp: send_feedback_def Let_def with_position_def generate_feedback_def
        feedback_slot0_def feedback_slot1_def)

theorem send_feedback_both_sides_witness:
  "feedbacks (snd (send_feedback example_constants example_haptic example_mapper))
     = (Some (example_haptic\<lparr>get_position := HapticPos_LEFT\<rparr>),
        Some (example_haptic\<lparr>get_position := HapticPos_RIGHT\<rparr>))
   \<and> feedbacks (snd (generate_feedback quiet_handlers
         (snd (send_feedback example_constants example_haptic example_mapper)))) = (None, None)
   \<and> feedback_sent (snd (generate_feedback quiet_handlers
         (snd (send_feedback example_constants example_haptic example_mapper))))
     = [example_haptic\<lparr>get_position := HapticPos_LEFT\<rparr>,
        example_haptic\<lparr>get_position := HapticPos_RIGHT\<rparr>]"
proof -
  have h1: "get_position example_haptic = HapticPos_BOTH"
    by (simp add: example_haptic_def)
  have h2: "controller example_mapper \<noteq> None"
    by (simp add: example_mapper_def set_controller_def)
  have h3: "\<forall>x. feedback_fault quiet_handlers x = None"
    by (simp add: quiet_handlers_def)
  have sent: "feedback_sent example_mapper = []"
    by (simp add: example_mapper_def set_controller_def init_mapper_def)
  note both = send_feedback_both_sides [OF h1 h2 h3, of example_constants]
  have filled: "send_feedback example_constants example_haptic example_mapper =
                  (None, example_mapper\<lparr>feedbacks :=
                     (Some (with_position HapticPos_LEFT example_haptic),
                      Some (with_position HapticPos_RIGHT example_haptic))\<rparr>)"
    using both by (rule conjunct1)
  have emptied: "generate_feedback quiet_handlers
                   (snd (send_feedback example_constants example_haptic example_mapper)) =
                  (None, example_mapper\<lparr>feedbacks := (None, None),
                     feedback_sent := feedback_sent example_mapper @
                       [with_position HapticPos_LEFT example_haptic,
                        with_position HapticPos_RIGHT example_haptic]\<rparr>)"
    using both by blast
  show ?thesis
    by (simp only: emptied) (simp add: filled with_position_def sent)
qed

section \<open>Theorems: button edges\<close>

lemmas cycle_defs =
  input_def dispatch_block_def check_buttons_def check_sticks_def check_gyro_def
  check_triggers_def check_rpad_def check_dpad_def check_lpad_def check_cpad_def
  with_self_controller_def call_def generate_feedback_def feedback_slot0_def
  feedback_slot1_def quirk_def Let_def

lemmas example_defs =
  example_mapper_def init_mapper_def set_controller_def example_profile_def
  example_constants_def plain_controller_def idle_state_def quiet_handlers_def

lemma appendsI:
  "(\<And>m. \<exists>ds. dispatched (snd (f m)) = dispatched m @ ds \<and> list_all P ds) \<Longrightarrow> appends P f"
  by (simp add: appends_def)

lemma appendsD:
  "appends P f \<Longrightarrow> \<exists>ds. dispatched (snd (f m)) = dispatched m @ ds \<and> list_all P ds"
  by (simp add: appends_def)

lemma appends_run_steps:
  "(\<And>f. f \<in> set fs \<Longrightarrow> appends P f) \<Longrightarrow> appends P (run_steps fs)"
proof (induction fs)
  case Nil
  show ?case by (rule appendsI) simp
next
  case (Cons f fs)
  have f: "appends P f" and rest: "appends P (run_steps fs)"
    using Cons by simp_all
  show ?case
  proof (rule appendsI)
    fix m
    obtain e m1 where fm: "f m = (e, m1)" by (cases "f m")
    obtain ds where ds: "dispatched m1 = dispatched m @ ds" "list_all P ds"
      using appendsD [OF f, of m] fm by auto
    show "\<exists>ds. dispatched (snd (run_steps (f # fs) m)) = dispatched m @ ds \<and> list_all P ds"
    proof (cases e)
      case None
      obtain ds' where ds': "dispatched (snd (run_steps fs m1)) = dispatched m1 @ ds'" "list_all P ds'"
        using appendsD [OF rest, of m1] by auto
      show ?thesis
        using None fm ds ds' by (intro exI [of _ "ds @ ds'"]) simp
    next
      case (Some a)
      then show ?thesis using fm ds by (intro exI [of _ ds]) simp
    qed
  qed
qed

lemma appends_check_sticks: "appends (\<lambda>d. \<not> is_button d) (check_sticks env k fe old st)"
  by (rule appendsI)
     (auto simp: check_sticks_def call_def with_self_controller_def split: option.splits)

lemma appends_check_gyro: "appends (\<lambda>d. \<not> is_button d) (check_gyro env ctrl st)"
  by (rule appendsI) (simp add: check_gyro_def call_def)

lemma appends_check_triggers: "appends (\<lambda>d. \<not> is_button d) (check_triggers env fe old st)"
  by (rule appendsI) (auto simp: check_triggers_def call_def split: option.splits)

lemma appends_check_rpad: "appends (\<lambda>d. \<not> is_button d) (check_rpad env k fe btn_rem ctrl old st)"
  by (rule appendsI) (simp add: check_rpad_def call_def)

lemma appends_check_dpad: "appends (\<lambda>d. \<not> is_button d) (check_dpad env k fe ctrl old st)"
  by (rule appendsI) (simp add: check_dpad_def call_def)

lemma appends_check_lpad: "appends (\<lambda>d. \<not> is_button d) (check_lpad env k fe old st)"
  by (rule appendsI)
     (auto simp: check_lpad_def call_def with_self_controller_def split: option.splits)

lemma appends_check_cpad: "appends (\<lambda>d. \<not> is_button d) (check_cpad env k fe ctrl old st)"
  by (rule appendsI) (simp add: check_cpad_def call_def)

lemma dispatched_generate_feedback [simp]:
  "dispatched (snd (generate_feedback env m)) = dispatched m"
  by (auto simp: generate_feedback_def feedback_slot0_def feedback_slot1_def Let_def
           split: option.splits)

lemma button_calls_zero [simp]: "button_calls 0 0 xs = []"
  by (induction xs) auto

lemma press_in_button_calls:
  "ButtonPress x \<in> set (button_calls a r xs) \<longleftrightarrow> x \<in> set xs \<and> x AND a \<noteq> 0"
  by (induction xs) auto

lemma release_in_button_calls:
  "ButtonRelease x \<in> set (button_calls a r xs) \<longleftrightarrow> x \<in> set xs \<and> x AND a = 0 \<and> x AND r \<noteq> 0"
  by (induction xs) auto

lemma button_calls_are_buttons: "list_all is_button (button_calls a r xs)"
  by (induction xs) auto

lemma filter_none: "list_all (\<lambda>d. \<not> P d) ds \<Longrightarrow> filter P ds = []"
  by (induction ds) auto

lemma filter_all: "list_all P ds \<Longrightarrow> filter P ds = ds"
  by (induction ds) auto

lemma button_calls_append:
  "button_calls a r (xs @ ys) = button_calls a r xs @ button_calls a r ys"
  by (induction xs) auto

lemma until_raise_prefix: "prefix (until_raise env ds) ds"
  by (induction ds) auto

lemma until_raise_buttons: "list_all is_button (until_raise env (button_calls a r xs))"
  using until_raise_prefix [of env "button_calls a r xs"] button_calls_are_buttons [of a r xs]
  by (auto simp: list_all_iff dest: set_mono_prefix)

lemma until_raise_append:
  "list_all (\<lambda>d. handler_fault env d = None) ds \<Longrightarrow>
   until_raise env (ds @ ds') = ds @ until_raise env ds'"
  by (induction ds) auto

lemma button_loop_run:
  "button_loop env a r xs m =
     (raised env (button_calls a r xs),
      m\<lparr>dispatched := dispatched m @ until_raise env (button_calls a r xs)\<rparr>)"
proof (induction xs arbitrary: m)
  case Nil
  then show ?case by simp
next
  case (Cons x xs)
  show ?case
  proof (cases "x AND a \<noteq> 0 \<or> x AND r \<noteq> 0")
    case False
    then show ?thesis using Cons.IH [of m] by simp
  next
    case True
    define d where "d = (if x AND a \<noteq> 0 then ButtonPress x else ButtonRelease x)"
    define m1 where "m1 = m\<lparr>dispatched := dispatched m @ [d]\<rparr>"
    have calls: "button_calls a r (x # xs) = d # button_calls a r xs"
      using True by (simp add: d_def)
    show ?thesis
    proof (cases "handler_fault env d")
      case None
      then have "button_loop env a r (x # xs) m = button_loop env a r xs m1"
        using True by (auto simp: d_def m1_def call_def)
      then show ?thesis
        unfolding calls using Cons.IH [of m1] None by (simp add: m1_def)
    next
      case (Some e)
      then have "button_loop env a r (x # xs) m = (Some e, m1)"
        using True by (auto simp: d_def m1_def call_def)
      then show ?thesis
        unfolding calls using Some by (simp add: m1_def)
    qed
  qed
qed

lemma check_buttons_run:
  "check_buttons env a r m =
     (raised env (button_calls a r (profile_buttons (profile m))),
      m\<lparr>dispatched := dispatched m @ until_raise env (button_calls a r (profile_buttons (profile m)))\<rparr>)"
  by (simp add: check_buttons_def button_loop_run)

lemma edge_masks:
  fixes b1 b2 :: int
  shows "(b1 XOR b2) AND b2 = b2 AND NOT b1" and "(b1 XOR b2) AND b1 = b1 AND NOT b2"
  by (rule bit_eqI; auto simp: bit_and_iff bit_xor_iff bit_not_iff)+

lemma single_bit_meets:
  fixes a :: int
  shows "2 ^ n AND a \<noteq> 0 \<longleftrightarrow> bit a n"
  by (metis and.commute and_exp_eq_0_iff_not_bit)

lemma dispatch_block_buttons:
  "filter is_button (drop (length (dispatched m))
       (dispatched (snd (dispatch_block env k fe ctrl old st m))))
     = until_raise env (button_calls ((old_buttons m XOR buttons m) AND buttons m)
                     ((old_buttons m XOR buttons m) AND old_buttons m)
                     (profile_buttons (profile m)))"
proof -
  define a where "a = (old_buttons m XOR buttons m) AND buttons m"
  define r where "r = (old_buttons m XOR buttons m) AND old_buttons m"
  define bs where "bs = until_raise env (button_calls a r (profile_buttons (profile m)))"
  define m1 where "m1 = m\<lparr>dispatched := dispatched m @ bs\<rparr>"
  define others where "others =
    [check_sticks env k fe old st, check_gyro env ctrl st, check_triggers env fe old st,
     check_rpad env k fe r ctrl old st, check_dpad env k fe ctrl old st,
     check_lpad env k fe old st, check_cpad env k fe ctrl old st]"
  have block: "dispatch_block env k fe ctrl old st m = run_steps (check_buttons env a r # others) m"
    by (simp add: dispatch_block_def Let_def a_def r_def others_def)
  have others: "appends (\<lambda>d. \<not> is_button d) (run_steps others)"
    unfolding others_def
    by (rule appends_run_steps)
       (auto simp: appends_check_sticks appends_check_gyro appends_check_triggers
          appends_check_rpad appends_check_dpad appends_check_lpad appends_check_cpad)
  have cb: "check_buttons env a r m = (raised env (button_calls a r (profile_buttons (profile m))), m1)"
    by (simp add: check_buttons_run m1_def bs_def)
  have bs: "filter is_button bs = bs"
    unfolding bs_def by (rule filter_all) (rule until_raise_buttons)
  obtain rest where rest: "dispatched (snd (dispatch_block env k fe ctrl old st m)) = dispatched m1 @ rest"
      "list_all (\<lambda>d. \<not> is_button d) rest"
  proof (cases "raised env (button_calls a r (profile_buttons (profile m)))")
    case None
    then have "dispatch_block env k fe ctrl old st m = run_steps others m1"
      by (simp add: block cb)
    then show ?thesis
      using appendsD [OF others, of m1] that by auto
  next
    case (Some x)
    then have "dispatch_block env k fe ctrl old st m = (Some x, m1)"
      by (simp add: block cb)
    then show ?thesis using that [of "[]"] by simp
  qed
  have "filter is_button (drop (length (dispatched m))
       (dispatched (snd (dispatch_block env k fe ctrl old st m)))) = bs"
    using rest bs by (simp add: m1_def filter_none)
  then show ?thesis
    by (simp add: bs_def a_def r_def)
qed

lemma input_dispatched:
  "dispatched (snd (input env k ctrl old st m)) =
   dispatched (snd (dispatch_block env k (force_event m) ctrl old st
     (m\<lparr>old_state := Some old, old_buttons := buttons m, state := Some st,
        buttons := quirk k (state_buttons st), force_event := {}\<rparr>)))"
  by (simp add: input_def Let_def split: prod.splits option.splits)

text \<open>
  Claim C1, as the code has it. In one \<open>input\<close> cycle, with \<open>B1\<close> the buttons the mapper held
  before and \<open>B2\<close> the buttons of the new state after the quirk: every \<open>button_press\<close>
  goes to a key of \<open>profile.buttons\<close> that meets \<open>B2 & ~B1\<close>, every \<open>button_release\<close> to
  a key that meets \<open>B1 & ~B2\<close>, and no key gets both. The button calls of the cycle are
  those of the loop over \<open>profile.buttons\<close>, in its order, up to the first handler that
  raises: the exception ends the \<open>try\<close> block, and the keys after it get no call. So the
  entry bound to a single bit \<open>2 ^ n\<close> gets \<open>button_press\<close> exactly if bit \<open>n\<close> is set in
  \<open>B2 & ~B1\<close>, and \<open>button_release\<close> exactly if bit \<open>n\<close> is set in \<open>B1 & ~B2\<close>, provided
  the button handlers called for the keys before it returned.
\<close>

theorem input_button_edges_in_order:
  "(\<forall>x. ButtonPress x \<in> set (input_dispatches env k ctrl old st m) \<longrightarrow>
      x \<in> set (profile_buttons (profile m))
      \<and> x AND (quirk k (state_buttons st) AND NOT (buttons m)) \<noteq> 0)
   \<and> (\<forall>x. ButtonRelease x \<in> set (input_dispatches env k ctrl old st m) \<longrightarrow>
      x \<in> set (profile_buttons (profile m))
      \<and> x AND (buttons m AND NOT (quirk k (state_buttons st))) \<noteq> 0)
   \<and> (\<forall>x. \<not> (ButtonPress x \<in> set (input_dispatches env k ctrl old st m)
             \<and> ButtonRelease x \<in> set (input_dispatches env k ctrl old st m)))
   \<and> filter is_button (input_dispatches env k ctrl old st m)
       = until_raise env
           (button_calls (quirk k (state_buttons st) AND NOT (buttons m))
              (buttons m AND NOT (quirk k (state_buttons st))) (profile_buttons (profile m)))
   \<and> (\<forall>i n. i < length (profile_buttons (profile m)) \<longrightarrow>
          profile_buttons (profile m) ! i = 2 ^ n \<longrightarrow>
          list_all (\<lambda>d. handler_fault env d = None)
            (button_calls (quirk k (state_buttons st) AND NOT (buttons m))
               (buttons m AND NOT (quirk k (state_buttons st)))
               (take i (profile_buttons (profile m)))) \<longrightarrow>
          (ButtonPress (2 ^ n) \<in> set (input_dispatches env k ctrl old st m)
             \<longleftrightarrow> bit (quirk k (state_buttons st) AND NOT (buttons m)) n)
        \<and> (ButtonRelease (2 ^ n) \<in> set (input_dispatches env k ctrl old st m)
             \<longleftrightarrow> bit (buttons m AND NOT (quirk k (state_buttons st))) n))"
proof -
  define B1 where "B1 = buttons m"
  define B2 where "B2 = quirk k (state_buttons st)"
  define keys where "keys = profile_buttons (profile m)"
  define ds where "ds = input_dispatches env k ctrl old st m"
  define m4 where "m4 = m\<lparr>old_state := Some old, old_buttons := buttons m, state := Some st,
        buttons := quirk k (state_buttons st), force_event := {}\<rparr>"
  define calls where "calls = button_calls (B2 AND NOT B1) (B1 AND NOT B2) keys"
  have masks: "(old_buttons m4 XOR buttons m4) AND buttons m4 = B2 AND NOT B1"
    "(old_buttons m4 XOR buttons m4) AND old_buttons m4 = B1 AND NOT B2"
    by (simp_all add: m4_def B1_def B2_def edge_masks)
  have "filter is_button (drop (length (dispatched m4))
       (dispatched (snd (dispatch_block env k (force_event m) ctrl old st m4))))
          = until_raise env calls"
    unfolding dispatch_block_buttons masks calls_def keys_def by (simp add: m4_def)
  then have exact: "filter is_button ds = until_raise env calls"
    by (simp add: ds_def input_dispatches_def input_dispatched m4_def)
  have press: "ButtonPress x \<in> set ds \<longleftrightarrow> ButtonPress x \<in> set (until_raise env calls)" for x
    unfolding exact [symmetric] by simp
  have release: "ButtonRelease x \<in> set ds \<longleftrightarrow> ButtonRelease x \<in> set (until_raise env calls)" for x
    unfolding exact [symmetric] by simp
  have sub: "set (until_raise env calls) \<subseteq> set calls"
    using until_raise_prefix by (rule set_mono_prefix)
  have p1: "ButtonPress x \<in> set ds \<Longrightarrow> x \<in> set keys \<and> x AND (B2 AND NOT B1) \<noteq> 0" for x
    using sub press [of x] by (auto simp: calls_def press_in_button_calls)
  have p2: "ButtonRelease x \<in> set ds \<Longrightarrow>
            x \<in> set keys \<and> x AND (B2 AND NOT B1) = 0 \<and> x AND (B1 AND NOT B2) \<noteq> 0" for x
    using sub release [of x] by (auto simp: calls_def release_in_button_calls)
  have p3: "\<not> (ButtonPress x \<in> set ds \<and> ButtonRelease x \<in> set ds)" for x
    using p1 [of x] p2 [of x] by blast
  have excl: "bit (B1 AND NOT B2) n \<Longrightarrow> \<not> bit (B2 AND NOT B1) n" for n
    by (simp add: bit_and_iff bit_not_iff)
  have p4: "(ButtonPress (2 ^ n) \<in> set ds \<longleftrightarrow> bit (B2 AND NOT B1) n)
          \<and> (ButtonRelease (2 ^ n) \<in> set ds \<longleftrightarrow> bit (B1 AND NOT B2) n)"
    if i: "i < length keys" and key: "keys ! i = 2 ^ n"
      and before: "list_all (\<lambda>d. handler_fault env d = None)
                     (button_calls (B2 AND NOT B1) (B1 AND NOT B2) (take i keys))" for i n
  proof -
    define tail where "tail = button_calls (B2 AND NOT B1) (B1 AND NOT B2) (drop (Suc i) keys)"
    have split: "keys = take i keys @ 2 ^ n # drop (Suc i) keys"
      using i key id_take_nth_drop by metis
    have add: "(2 ^ n AND (B2 AND NOT B1) \<noteq> 0) = bit (B2 AND NOT B1) n"
      by (rule single_bit_meets)
    have rem: "(2 ^ n AND (B1 AND NOT B2) \<noteq> 0) = bit (B1 AND NOT B2) n"
      by (rule single_bit_meets)
    have made: "until_raise env calls =
        button_calls (B2 AND NOT B1) (B1 AND NOT B2) (take i keys)
        @ until_raise env (button_calls (B2 AND NOT B1) (B1 AND NOT B2) (2 ^ n # drop (Suc i) keys))"
      unfolding calls_def
      by (subst split, subst button_calls_append) (rule until_raise_append [OF before])
    have in_keys: "2 ^ n \<in> set keys"
      using i key nth_mem by metis
    have "ButtonPress (2 ^ n) \<in> set (until_raise env calls)" if "bit (B2 AND NOT B1) n"
    proof -
      have "button_calls (B2 AND NOT B1) (B1 AND NOT B2) (2 ^ n # drop (Suc i) keys)
              = ButtonPress (2 ^ n) # tail"
        using that add by (simp add: tail_def)
      then show ?thesis
        unfolding made by simp
    qed
    moreover have "ButtonRelease (2 ^ n) \<in> set (until_raise env calls)" if "bit (B1 AND NOT B2) n"
    proof -
      have "button_calls (B2 AND NOT B1) (B1 AND NOT B2) (2 ^ n # drop (Suc i) keys)
              = ButtonRelease (2 ^ n) # tail"
        using that add rem excl [of n] by (simp add: tail_def)
      then show ?thesis
        unfolding made by simp
    qed
    moreover have "bit (B2 AND NOT B1) n" if "ButtonPress (2 ^ n) \<in> set ds"
      using p1 [OF that] add by blast
    moreover have "bit (B1 AND NOT B2) n" if "ButtonRelease (2 ^ n) \<in> set ds"
      using p2 [OF that] rem by blast
    ultimately show ?thesis
      using press release by blast
  qed
  show ?thesis
    unfolding B1_def [symmetric] B2_def [symmetric] ds_def [symmetric] keys_def [symmetric]
      calls_def [symmetric]
    using p1 p2 p3 p4 exact by blast
qed

theorem input_button_edges_in_order_witness:
  "1 < length (profile_buttons (profile (example_mapper\<lparr>buttons := 0x8000\<rparr>)))
   \<and> profile_buttons (profile (example_mapper\<lparr>buttons := 0x8000\<rparr>)) ! 1 = 2 ^ 14
   \<and> handler_fault (faulty (ButtonPress 0x4000)) (ButtonPress 0x4000) = Some ActionError
   \<and> list_all (\<lambda>d. handler_fault (faulty (ButtonPress 0x4000)) d = None)
       (button_calls
          (quirk example_constants (state_buttons (idle_state\<lparr>state_buttons := 0x4000\<rparr>))
             AND NOT (buttons (example_mapper\<lparr>buttons := 0x8000\<rparr>)))
          (buttons (example_mapper\<lparr>buttons := 0x8000\<rparr>)
             AND NOT (quirk example_constants (state_buttons (idle_state\<lparr>state_buttons := 0x4000\<rparr>))))
          (take 1 (profile_buttons (profile (example_mapper\<lparr>buttons := 0x8000\<rparr>)))))
   \<and> ButtonPress (2 ^ 14) \<in> set (input_dispatches (faulty (ButtonPress 0x4000))
        example_constants plain_controller idle_state (idle_state\<lparr>state_buttons := 0x4000\<rparr>)
        (example_mapper\<lparr>buttons := 0x8000\<rparr>))
   \<and> ButtonRelease (2 ^ 14) \<notin> set (input_dispatches (faulty (ButtonPress 0x4000))
        example_constants plain_controller idle_state (idle_state\<lparr>state_buttons := 0x4000\<rparr>)
        (example_mapper\<lparr>buttons := 0x8000\<rparr>))"
proof -
  define env where "env = faulty (ButtonPress 0x4000)"
  define st where "st = idle_state\<lparr>state_buttons := 0x4000\<rparr>"
  define m where "m = example_mapper\<lparr>buttons := 0x8000\<rparr>"
  have b2: "quirk example_constants (state_buttons st) = 2 ^ 14"
    by (simp add: quirk_def example_constants_def st_def)
  have b1: "buttons m = 2 ^ 15"
    by (simp add: m_def)
  have keys: "profile_buttons (profile m) = [2 ^ 15, 2 ^ 14, 2 ^ 30, 2 ^ 25]"
    by (simp add: m_def example_defs)
  have h1: "1 < length (profile_buttons (profile m))"
    by (simp add: keys)
  have h2: "profile_buttons (profile m) ! 1 = 2 ^ 14"
    by (simp add: keys)
  have fault: "handler_fault env (ButtonPress 0x4000) = Some ActionError"
    by (simp add: env_def faulty_def)
  have h3: "list_all (\<lambda>d. handler_fault env d = None)
       (button_calls (quirk example_constants (state_buttons st) AND NOT (buttons m))
          (buttons m AND NOT (quirk example_constants (state_buttons st)))
          (take 1 (profile_buttons (profile m))))"
    by (simp add: keys b1 b2) (simp add: env_def faulty_def)
  have added: "bit (quirk example_constants (state_buttons st) AND NOT (buttons m)) 14"
    unfolding b1 b2 by (simp add: bit_and_iff bit_not_iff bit_exp_iff)
  have kept: "\<not> bit (buttons m AND NOT (quirk example_constants (state_buttons st))) 14"
    unfolding b1 b2 by (simp add: bit_and_iff bit_not_iff bit_exp_iff)
  note edges = input_button_edges_in_order [of env example_constants plain_controller idle_state st m,
      THEN conjunct2, THEN conjunct2, THEN conjunct2, THEN conjunct2, rule_format, OF h1 h2 h3]
  from edges added kept
  have "ButtonPress (2 ^ 14) \<in> set (input_dispatches env example_constants plain_controller
           idle_state st m)
      \<and> ButtonRelease (2 ^ 14) \<notin> set (input_dispatches env example_constants plain_controller
           idle_state st m)"
    by blast
  with h1 h2 h3 fault show ?thesis
    unfolding env_def st_def m_def by blast
qed

text \<open>
  The claim as stated gives every set bit of \<open>B2 & ~B1\<close> its press. With the keys
  \<open>0x8000\<close> and \<open>0x4000\<close> pressed together and the handler of \<open>0x8000\<close> raising, the
  exception is caught and logged, the entry of \<open>0x4000\<close> gets no call in the cycle, and
  none in the next cycle either, in which the buttons did not change.
\<close>

theorem input_button_edge_lost:
  "bit (quirk example_constants (state_buttons (idle_state\<lparr>state_buttons := 0xC000\<rparr>))
          AND NOT (buttons example_mapper)) 14
   \<and> profile_buttons (profile example_mapper) ! 1 = 2 ^ 14
   \<and> input (faulty (ButtonPress 0x8000)) example_constants plain_controller idle_state
        (idle_state\<lparr>state_buttons := 0xC000\<rparr>) example_mapper
      = (None, example_mapper\<lparr>old_state := Some idle_state,
                 state := Some (idle_state\<lparr>state_buttons := 0xC000\<rparr>), buttons := 0xC000,
                 dispatched := [ButtonPress 0x8000], error_log := [ActionError]\<rparr>)
   \<and> ButtonPress 0x4000 \<notin> set (input_dispatches (faulty (ButtonPress 0x8000)) example_constants
        plain_controller idle_state (idle_state\<lparr>state_buttons := 0xC000\<rparr>) example_mapper)
   \<and> input_dispatches (faulty (ButtonPress 0x8000)) example_constants plain_controller
        (idle_state\<lparr>state_buttons := 0xC000\<rparr>) (idle_state\<lparr>state_buttons := 0xC000\<rparr>)
        (snd (input (faulty (ButtonPress 0x8000)) example_constants plain_controller idle_state
                (idle_state\<lparr>state_buttons := 0xC000\<rparr>) example_mapper)) = []"
proof -
  have first: "input (faulty (ButtonPress 0x8000)) example_constants plain_controller idle_state
        (idle_state\<lparr>state_buttons := 0xC000\<rparr>) example_mapper
      = (None, example_mapper\<lparr>old_state := Some idle_state,
                 state := Some (idle_state\<lparr>state_buttons := 0xC000\<rparr>), buttons := 0xC000,
                 dispatched := [ButtonPress 0x8000], error_log := [ActionError]\<rparr>)"
    by (simp add: cycle_defs example_defs faulty_def)
  have second: "input_dispatches (faulty (ButtonPress 0x8000)) example_constants plain_controller
        (idle_state\<lparr>state_buttons := 0xC000\<rparr>) (idle_state\<lparr>state_buttons := 0xC000\<rparr>)
        (example_mapper\<lparr>old_state := Some idle_state,
                 state := Some (idle_state\<lparr>state_buttons := 0xC000\<rparr>), buttons := 0xC000,
                 dispatched := [ButtonPress 0x8000], error_log := [ActionError]\<rparr>) = []"
    unfolding input_dispatches_def by (simp add: cycle_defs example_defs faulty_def)
  have bit: "bit (quirk example_constants (state_buttons (idle_state\<lparr>state_buttons := 0xC000\<rparr>))
          AND NOT (buttons example_mapper)) 14"
    by (simp add: quirk_def example_defs bit_and_iff bit_not_iff)
  have key: "profile_buttons (profile example_mapper) ! 1 = 2 ^ 14"
    by (simp add: example_defs)
  have none: "ButtonPress 0x4000 \<notin> set (input_dispatches (faulty (ButtonPress 0x8000))
        example_constants plain_controller idle_state (idle_state\<lparr>state_buttons := 0xC000\<rparr>)
        example_mapper)"
    unfolding input_dispatches_def first by (simp add: example_defs)
  show ?thesis
    using bit key none by (simp add: first second)
qed

section \<open>Theorems: left pad release\<close>


lemma tripleI:
  "(\<And>m. Q m \<Longrightarrow> Q (snd (f m))
      \<and> (\<exists>ds. dispatched (snd (f m)) = dispatched m @ ds \<and> list_all P ds)) \<Longrightarrow> triple Q f P"
  by (simp add: triple_def)

lemma tripleD:
  "triple Q f P \<Longrightarrow> Q m \<Longrightarrow>
     Q (snd (f m)) \<and> (\<exists>ds. dispatched (snd (f m)) = dispatched m @ ds \<and> list_all P ds)"
  by (simp add: triple_def)

lemma triple_run_steps:
  "(\<And>f. f \<in> set fs \<Longrightarrow> triple Q f P) \<Longrightarrow> triple Q (run_steps fs) P"
proof (induction fs)
  case Nil
  show ?case by (rule tripleI) simp
next
  case (Cons f fs)
  have f: "triple Q f P" and rest: "triple Q (run_steps fs) P"
    using Cons by simp_all
  show ?case
  proof (rule tripleI)
    fix m
    assume q: "Q m"
    obtain e m1 where fm: "f m = (e, m1)" by (cases "f m")
    obtain ds where ds: "Q m1" "dispatched m1 = dispatched m @ ds" "list_all P ds"
      using tripleD [OF f q] fm by auto
    show "Q (snd (run_steps (f # fs) m))
        \<and> (\<exists>ds. dispatched (snd (run_steps (f # fs) m)) = dispatched m @ ds \<and> list_all P ds)"
    proof (cases e)
      case None
      obtain ds' where ds': "Q (snd (run_steps fs m1))"
          "dispatched (snd (run_steps fs m1)) = dispatched m1 @ ds'" "list_all P ds'"
        using tripleD [OF rest ds(1)] by auto
      have "dispatched (snd (run_steps (f # fs) m)) = dispatched m @ (ds @ ds')"
        using None fm ds ds' by simp
      moreover have "list_all P (ds @ ds')"
        using ds ds' by simp
      ultimately show ?thesis
        using None fm ds' by auto
    next
      case (Some a)
      then show ?thesis using fm ds by auto
    qed
  qed
qed

lemma call_boundI:
  "(\<And>m. Q m \<Longrightarrow> fst (f m) = None
       \<longleftrightarrow> list_all (\<lambda>d. handler_fault env d = None)
             (drop (length (dispatched m)) (dispatched (snd (f m))))) \<Longrightarrow> call_bound env Q f"
  by (simp add: call_bound_def)

lemma call_boundD:
  "call_bound env Q f \<Longrightarrow> Q m \<Longrightarrow>
     fst (f m) = None
       \<longleftrightarrow> list_all (\<lambda>d. handler_fault env d = None)
             (drop (length (dispatched m)) (dispatched (snd (f m))))"
  by (simp add: call_bound_def)

lemma call_bound_run_steps:
  "(\<And>f. f \<in> set fs \<Longrightarrow> triple Q f P \<and> call_bound env Q f) \<Longrightarrow>
   call_bound env Q (run_steps fs)"
proof (induction fs)
  case Nil
  show ?case by (simp add: call_bound_def)
next
  case (Cons f fs)
  have f: "triple Q f P" "call_bound env Q f" and rest: "call_bound env Q (run_steps fs)"
    and rest_triple: "triple Q (run_steps fs) P"
    using Cons by (simp_all add: triple_run_steps)
  show ?case
  proof (rule call_boundI)
    fix m
    assume q: "Q m"
    obtain e m1 where fm: "f m = (e, m1)" by (cases "f m")
    obtain ds where ds: "Q m1" "dispatched m1 = dispatched m @ ds"
      using tripleD [OF f(1) q] fm by auto
    have e: "e = None \<longleftrightarrow> list_all (\<lambda>d. handler_fault env d = None) ds"
      using call_boundD [OF f(2) q] fm ds(2) by simp
    show "fst (run_steps (f # fs) m) = None
       \<longleftrightarrow> list_all (\<lambda>d. handler_fault env d = None)
             (drop (length (dispatched m)) (dispatched (snd (run_steps (f # fs) m))))"
    proof (cases e)
      case None
      obtain ds' where ds': "dispatched (snd (run_steps fs m1)) = dispatched m1 @ ds'"
        using tripleD [OF rest_triple ds(1)] by auto
      have "fst (run_steps fs m1) = None \<longleftrightarrow> list_all (\<lambda>d. handler_fault env d = None) ds'"
        using call_boundD [OF rest ds(1)] ds' by simp
      then show ?thesis
        using None fm e ds(2) ds' by simp
    next
      case (Some a)
      then show ?thesis using fm e ds(2) by simp
    qed
  qed
qed

lemma run_steps_append:
  "run_steps (fs @ gs) m =
     (case run_steps fs m of
        (None, m1) \<Rightarrow> run_steps gs m1
      | (Some e, m1) \<Rightarrow> (Some e, m1))"
  by (induction fs arbitrary: m) (auto split: prod.splits option.splits)

lemma and_zero_iff_bits:
  fixes a b :: int
  shows "a AND b = 0 \<longleftrightarrow> (\<forall>n. \<not> (bit a n \<and> bit b n))"
  by (auto simp: bit_eq_iff bit_and_iff)

lemma quirk_keeps_clear:
  assumes "STICKPRESS k AND t = 0" and "b AND t = 0"
  shows "quirk k b AND t = 0"
  using assms
  unfolding quirk_def and_zero_iff_bits
  by (auto simp: bit_and_iff bit_or_iff bit_not_iff)

lemma button_loop_frame:
  "\<exists>ds. snd (button_loop env a r xs m) = m\<lparr>dispatched := dispatched m @ ds\<rparr>
        \<and> prefix ds (button_calls a r xs)"
proof (induction xs arbitrary: m)
  case Nil
  then show ?case by simp
next
  case (Cons x xs)
  show ?case
  proof (cases "x AND a \<noteq> 0 \<or> x AND r \<noteq> 0")
    case False
    then show ?thesis using Cons.IH [of m] by simp
  next
    case True
    define d where "d = (if x AND a \<noteq> 0 then ButtonPress x else ButtonRelease x)"
    define m1 where "m1 = m\<lparr>dispatched := dispatched m @ [d]\<rparr>"
    have calls: "button_calls a r (x # xs) = d # button_calls a r xs"
      using True by (simp add: d_def)
    show ?thesis
    proof (cases "handler_fault env d")
      case None
      then have step: "button_loop env a r (x # xs) m = button_loop env a r xs m1"
        using True by (auto simp: d_def m1_def call_def)
      obtain ds where "snd (button_loop env a r xs m1) = m1\<lparr>dispatched := dispatched m1 @ ds\<rparr>"
        "prefix ds (button_calls a r xs)"
        using Cons.IH [of m1] by blast
      then show ?thesis
        unfolding step calls by (intro exI [of _ "d # ds"]) (simp add: m1_def)
    next
      case (Some e)
      then have "button_loop env a r (x # xs) m = (Some e, m1)"
        using True by (auto simp: d_def m1_def call_def)
      then show ?thesis
        unfolding calls by (intro exI [of _ "[d]"]) (simp add: m1_def)
    qed
  qed
qed

lemma check_buttons_frame:
  "\<exists>ds. snd (check_buttons env a r m) = m\<lparr>dispatched := dispatched m @ ds\<rparr>
        \<and> list_all is_button ds"
proof -
  obtain ds where ds: "snd (button_loop env a r (profile_buttons (profile m)) m)
                         = m\<lparr>dispatched := dispatched m @ ds\<rparr>"
      "prefix ds (button_calls a r (profile_buttons (profile m)))"
    using button_loop_frame by blast
  have "list_all is_button ds"
    using ds(2) button_calls_are_buttons [of a r "profile_buttons (profile m)"]
    by (auto simp: list_all_iff dest: set_mono_prefix)
  show ?thesis
  proof (cases "a \<noteq> 0 \<or> r \<noteq> 0")
    case True
    then show ?thesis
      using ds(1) \<open>list_all is_button ds\<close> by (auto simp: check_buttons_def)
  next
    case False
    then show ?thesis
      by (intro exI [of _ "[]"]) (simp add: check_buttons_def)
  qed
qed

text \<open>Sections before the left pad, under a fixed controller, buttons and touch mark.\<close>

lemma triple_check_buttons:
  "triple (\<lambda>m. controller m = C \<and> buttons m = B \<and> lpad_touched m = T)
     (check_buttons env a r) (\<lambda>d. \<not> is_left_pad d)"
proof (rule tripleI)
  fix m :: mapper
  assume q: "controller m = C \<and> buttons m = B \<and> lpad_touched m = T"
  obtain ds where ds: "snd (check_buttons env a r m) = m\<lparr>dispatched := dispatched m @ ds\<rparr>"
      "list_all is_button ds"
    using check_buttons_frame by blast
  have "list_all (\<lambda>d. \<not> is_left_pad d) ds"
    using ds(2) by (induction ds) (auto elim: is_button.elims)
  then show "(controller (snd (check_buttons env a r m)) = C
        \<and> buttons (snd (check_buttons env a r m)) = B
        \<and> lpad_touched (snd (check_buttons env a r m)) = T)
      \<and> (\<exists>ds. dispatched (snd (check_buttons env a r m)) = dispatched m @ ds
              \<and> list_all (\<lambda>d. \<not> is_left_pad d) ds)"
    using q ds(1) by simp
qed

lemma triple_check_sticks:
  "triple (\<lambda>m. controller m = C \<and> buttons m = B \<and> lpad_touched m = T)
     (check_sticks env k fe old st) (\<lambda>d. \<not> is_left_pad d)"
  by (rule tripleI)
     (auto simp: check_sticks_def call_def with_self_controller_def split: option.splits)

lemma triple_check_gyro:
  "triple (\<lambda>m. controller m = C \<and> buttons m = B \<and> lpad_touched m = T)
     (check_gyro env ctrl st) (\<lambda>d. \<not> is_left_pad d)"
  by (rule tripleI) (auto simp: check_gyro_def call_def)

lemma triple_check_triggers:
  "triple (\<lambda>m. controller m = C \<and> buttons m = B \<and> lpad_touched m = T)
     (check_triggers env fe old st) (\<lambda>d. \<not> is_left_pad d)"
  by (rule tripleI) (auto simp: check_triggers_def call_def split: option.splits)

lemma triple_check_rpad:
  "triple (\<lambda>m. controller m = C \<and> buttons m = B \<and> lpad_touched m = T)
     (check_rpad env k fe r ctrl old st) (\<lambda>d. \<not> is_left_pad d)"
  by (rule tripleI) (auto simp: check_rpad_def call_def)

lemma triple_check_dpad:
  "triple (\<lambda>m. controller m = C \<and> buttons m = B \<and> lpad_touched m = T)
     (check_dpad env k fe ctrl old st) (\<lambda>d. \<not> is_left_pad d)"
  by (rule tripleI) (auto simp: check_dpad_def call_def)

lemma triple_check_cpad:
  "triple (\<lambda>m. controller m = C \<and> buttons m = B \<and> lpad_touched m = T)
     (check_cpad env k fe ctrl old st) (\<lambda>d. \<not> is_left_pad d)"
  by (rule tripleI) (auto simp: check_cpad_def call_def)

lemma triple_check_lpad_released:
  assumes "flags c AND SEPARATE_STICK k = 0" and "B AND LPADTOUCH k = 0" and "\<not> T"
  shows "triple (\<lambda>m. controller m = Some c \<and> buttons m = B \<and> lpad_touched m = T)
     (check_lpad env k fe old st) (\<lambda>d. \<not> is_left_pad d)"
  using assms
  by (intro tripleI) (auto simp: check_lpad_def call_def with_self_controller_def)

lemma raised_none_iff:
  "raised env ds = None \<longleftrightarrow> list_all (\<lambda>d. handler_fault env d = None) (until_raise env ds)"
  by (induction ds) (auto split: option.splits)

lemma call_bound_pre_sections:
  shows "call_bound env (\<lambda>m. controller m = Some c \<and> buttons m = B \<and> lpad_touched m = T)
           (check_buttons env a r)"
    and "call_bound env (\<lambda>m. controller m = Some c \<and> buttons m = B \<and> lpad_touched m = T)
           (check_sticks env k fe old st)"
    and "call_bound env (\<lambda>m. controller m = Some c \<and> buttons m = B \<and> lpad_touched m = T)
           (check_gyro env ctrl st)"
    and "call_bound env (\<lambda>m. controller m = Some c \<and> buttons m = B \<and> lpad_touched m = T)
           (check_triggers env fe old st)"
    and "call_bound env (\<lambda>m. controller m = Some c \<and> buttons m = B \<and> lpad_touched m = T)
           (check_rpad env k fe r ctrl old st)"
    and "call_bound env (\<lambda>m. controller m = Some c \<and> buttons m = B \<and> lpad_touched m = T)
           (check_dpad env k fe ctrl old st)"
proof -
  show "call_bound env (\<lambda>m. controller m = Some c \<and> buttons m = B \<and> lpad_touched m = T)
           (check_buttons env a r)"
    by (rule call_boundI) (simp add: check_buttons_run raised_none_iff)
  show "call_bound env (\<lambda>m. controller m = Some c \<and> buttons m = B \<and> lpad_touched m = T)
           (check_sticks env k fe old st)"
    by (rule call_boundI)
       (auto simp: check_sticks_def call_def with_self_controller_def split: option.splits)
  show "call_bound env (\<lambda>m. controller m = Some c \<and> buttons m = B \<and> lpad_touched m = T)
           (check_gyro env ctrl st)"
    by (rule call_boundI) (auto simp: check_gyro_def call_def)
  show "call_bound env (\<lambda>m. controller m = Some c \<and> buttons m = B \<and> lpad_touched m = T)
           (check_triggers env fe old st)"
    by (rule call_boundI) (auto simp: check_triggers_def call_def split: option.splits)
  show "call_bound env (\<lambda>m. controller m = Some c \<and> buttons m = B \<and> lpad_touched m = T)
           (check_rpad env k fe r ctrl old st)"
    by (rule call_boundI) (auto simp: check_rpad_def call_def)
  show "call_bound env (\<lambda>m. controller m = Some c \<and> buttons m = B \<and> lpad_touched m = T)
           (check_dpad env k fe ctrl old st)"
    by (rule call_boundI) (auto simp: check_dpad_def call_def)
qed

lemma takeWhile_until:
  "list_all (\<lambda>d. \<not> P d) ds \<Longrightarrow> P x \<Longrightarrow> takeWhile (\<lambda>d. \<not> P d) (ds @ x # ds') = ds"
  by (induction ds) auto

lemma takeWhile_all: "list_all P ds \<Longrightarrow> takeWhile P ds = ds"
  by (induction ds) auto

text \<open>
  The block of a cycle that finds the touch mark set and the touch and tilt bits clear:
  the left pad is reached exactly when the calls of the sections before it returned.
\<close>

lemma release_block_cases:
  assumes c: "controller m = Some c" "flags c AND SEPARATE_STICK k = 0"
      and touched: "lpad_touched m"
      and clear: "buttons m AND LPADTOUCH k = 0" "buttons m AND STICKTILT k = 0"
  shows "(filter is_left_pad (drop (length (dispatched m))
            (dispatched (snd (dispatch_block env k fe ctrl old st m)))) = [PadWhole LEFT 0 0 LEFT]
          \<longleftrightarrow> list_all (\<lambda>d. handler_fault env d = None)
                (takeWhile (\<lambda>d. \<not> is_left_pad d) (drop (length (dispatched m))
                   (dispatched (snd (dispatch_block env k fe ctrl old st m))))))
       \<and> (filter is_left_pad (drop (length (dispatched m))
            (dispatched (snd (dispatch_block env k fe ctrl old st m)))) = [PadWhole LEFT 0 0 LEFT]
            \<and> \<not> lpad_touched (snd (dispatch_block env k fe ctrl old st m))
          \<or> filter is_left_pad (drop (length (dispatched m))
            (dispatched (snd (dispatch_block env k fe ctrl old st m)))) = []
            \<and> lpad_touched (snd (dispatch_block env k fe ctrl old st m)))
       \<and> controller (snd (dispatch_block env k fe ctrl old st m)) = Some c"
proof -
  define r where "r = (old_buttons m XOR buttons m) AND old_buttons m"
  define a where "a = (old_buttons m XOR buttons m) AND buttons m"
  define pre where "pre = [check_buttons env a r, check_sticks env k fe old st,
     check_gyro env ctrl st, check_triggers env fe old st,
     check_rpad env k fe r ctrl old st, check_dpad env k fe ctrl old st]"
  define yes where "yes = True"
  define no where "no = False"
  define Q where "Q = (\<lambda>m' :: mapper.
    controller m' = Some c \<and> buttons m' = buttons m \<and> lpad_touched m' = yes)"
  define Q' where "Q' = (\<lambda>m' :: mapper.
    controller m' = Some c \<and> buttons m' = buttons m \<and> lpad_touched m' = no)"
  define D where "D = drop (length (dispatched m))
            (dispatched (snd (dispatch_block env k fe ctrl old st m)))"
  define m' where "m' = snd (dispatch_block env k fe ctrl old st m)"
  have block: "dispatch_block env k fe ctrl old st m =
                 run_steps (pre @ [check_lpad env k fe old st, check_cpad env k fe ctrl old st]) m"
    by (simp add: dispatch_block_def Let_def pre_def a_def r_def)
  have each: "triple Q f (\<lambda>d. \<not> is_left_pad d) \<and> call_bound env Q f" if "f \<in> set pre" for f
    using that call_bound_pre_sections [of env c "buttons m" yes]
    unfolding pre_def Q_def
    by (auto simp: triple_check_buttons triple_check_sticks triple_check_gyro
          triple_check_triggers triple_check_rpad triple_check_dpad)
  have qm: "Q m" using c touched by (simp add: Q_def yes_def)
  obtain e ma where pre_run: "run_steps pre m = (e, ma)"
    by (cases "run_steps pre m")
  have "triple Q (run_steps pre) (\<lambda>d. \<not> is_left_pad d)"
    by (rule triple_run_steps) (use each in blast)
  from tripleD [OF this qm] pre_run
  obtain ds1 where ma: "Q ma" "dispatched ma = dispatched m @ ds1"
      "list_all (\<lambda>d. \<not> is_left_pad d) ds1"
    by auto
  have "call_bound env Q (run_steps pre)"
    by (rule call_bound_run_steps [where P = "\<lambda>d. \<not> is_left_pad d"]) (use each in blast)
  from call_boundD [OF this qm]
  have e: "e = None \<longleftrightarrow> list_all (\<lambda>d. handler_fault env d = None) ds1"
    using pre_run ma(2) by simp
  have "(filter is_left_pad D = [PadWhole LEFT 0 0 LEFT]
          \<longleftrightarrow> list_all (\<lambda>d. handler_fault env d = None) (takeWhile (\<lambda>d. \<not> is_left_pad d) D))
       \<and> (filter is_left_pad D = [PadWhole LEFT 0 0 LEFT] \<and> \<not> lpad_touched m'
          \<or> filter is_left_pad D = [] \<and> lpad_touched m')
       \<and> controller m' = Some c"
  proof (cases e)
    case (Some x)
    then have "dispatch_block env k fe ctrl old st m = (Some x, ma)"
      by (simp add: block run_steps_append pre_run)
    then have "m' = ma" "D = ds1"
      by (simp_all add: m'_def D_def ma(2))
    then show ?thesis
      using ma(1,3) e Some by (simp add: Q_def yes_def filter_none takeWhile_all)
  next
    case None
    define mb where "mb = ma\<lparr>lpad_touched := False,
                           dispatched := dispatched ma @ [PadWhole LEFT 0 0 LEFT]\<rparr>"
    have lpad: "check_lpad env k fe old st ma = (handler_fault env (PadWhole LEFT 0 0 LEFT), mb)"
      using ma(1) c(2) clear
      by (simp add: Q_def yes_def check_lpad_def with_self_controller_def call_def mb_def)
    have qb: "Q' mb"
      using ma(1) by (simp add: Q_def Q'_def mb_def no_def)
    have "triple Q' (check_cpad env k fe ctrl old st) (\<lambda>d. \<not> is_left_pad d)"
      unfolding Q'_def by (rule triple_check_cpad)
    from tripleD [OF this qb]
    obtain ds2 where mc: "Q' (snd (check_cpad env k fe ctrl old st mb))"
        "dispatched (snd (check_cpad env k fe ctrl old st mb)) = dispatched mb @ ds2"
        "list_all (\<lambda>d. \<not> is_left_pad d) ds2"
      by auto
    have "\<exists>ds3. Q' m' \<and> D = ds1 @ PadWhole LEFT 0 0 LEFT # ds3
            \<and> list_all (\<lambda>d. \<not> is_left_pad d) ds3"
    proof (cases "handler_fault env (PadWhole LEFT 0 0 LEFT)")
      case (Some x)
      then have "dispatch_block env k fe ctrl old st m = (Some x, mb)"
        using None by (simp add: block run_steps_append pre_run lpad)
      then have "m' = mb" "D = ds1 @ [PadWhole LEFT 0 0 LEFT]"
        by (simp_all add: m'_def D_def mb_def ma(2))
      then show ?thesis
        using qb by simp
    next
      case fine: None
      have "m' = snd (check_cpad env k fe ctrl old st mb)"
        using None fine
        by (simp add: m'_def block run_steps_append pre_run lpad split: prod.splits option.splits)
      moreover from this have "D = ds1 @ PadWhole LEFT 0 0 LEFT # ds2"
        unfolding D_def m'_def [symmetric] by (simp only: mc(2)) (simp add: mb_def ma(2))
      ultimately show ?thesis
        using mc(1,3) by simp
    qed
    then obtain ds3 where end_state: "Q' m'" and D: "D = ds1 @ PadWhole LEFT 0 0 LEFT # ds3"
      and ds3: "list_all (\<lambda>d. \<not> is_left_pad d) ds3"
      by blast
    have "filter is_left_pad D = [PadWhole LEFT 0 0 LEFT]"
      using ma(3) ds3 by (simp add: D filter_none)
    moreover have "takeWhile (\<lambda>d. \<not> is_left_pad d) D = ds1"
      unfolding D by (rule takeWhile_until [OF ma(3)]) simp
    ultimately show ?thesis
      using end_state e None by (simp add: Q'_def no_def)
  qed
  then show ?thesis
    unfolding D_def m'_def .
qed

lemma generate_feedback_keeps:
  "lpad_touched (snd (generate_feedback env m)) = lpad_touched m"
  "controller (snd (generate_feedback env m)) = controller m"
  "buttons (snd (generate_feedback env m)) = buttons m"
  "error_log (snd (generate_feedback env m)) = error_log m"
  by (auto simp: generate_feedback_def feedback_slot0_def feedback_slot1_def Let_def
           split: option.splits)

lemma input_result:
  "\<exists>e. snd (input env k ctrl old st m) =
     snd (generate_feedback env
       (snd (dispatch_block env k (force_event m) ctrl old st
          (m\<lparr>old_state := Some old, old_buttons := buttons m, state := Some st,
             buttons := quirk k (state_buttons st), force_event := {}\<rparr>))
        \<lparr>error_log := e\<rparr>))
   \<or> snd (input env k ctrl old st m) =
     snd (dispatch_block env k (force_event m) ctrl old st
          (m\<lparr>old_state := Some old, old_buttons := buttons m, state := Some st,
             buttons := quirk k (state_buttons st), force_event := {}\<rparr>))"
proof -
  define m4 where "m4 = m\<lparr>old_state := Some old, old_buttons := buttons m, state := Some st,
             buttons := quirk k (state_buttons st), force_event := {}\<rparr>"
  obtain e m5 where b: "dispatch_block env k (force_event m) ctrl old st m4 = (e, m5)"
    by (cases "dispatch_block env k (force_event m) ctrl old st m4")
  have same: "m5\<lparr>error_log := error_log m5\<rparr> = m5"
    by simp
  show ?thesis
  proof (cases e)
    case None
    then have "snd (input env k ctrl old st m) = snd (generate_feedback env (m5\<lparr>error_log := error_log m5\<rparr>))"
      using b by (simp add: input_def Let_def m4_def)
    then show ?thesis
      using b unfolding m4_def by (intro exI [of _ "error_log m5"]) simp
  next
    case (Some x)
    then show ?thesis
      using b unfolding m4_def
      by (cases "testing m5") (auto simp: input_def Let_def)
  qed
qed

lemma input_keeps:
  "lpad_touched (snd (input env k ctrl old st m)) =
     lpad_touched (snd (dispatch_block env k (force_event m) ctrl old st
          (m\<lparr>old_state := Some old, old_buttons := buttons m, state := Some st,
             buttons := quirk k (state_buttons st), force_event := {}\<rparr>)))"
  "controller (snd (input env k ctrl old st m)) =
     controller (snd (dispatch_block env k (force_event m) ctrl old st
          (m\<lparr>old_state := Some old, old_buttons := buttons m, state := Some st,
             buttons := quirk k (state_buttons st), force_event := {}\<rparr>)))"
  using input_result [of env k ctrl old st m]
  by (auto simp: generate_feedback_keeps)

lemma release_cycle_cases:
  assumes c: "controller m = Some c" "flags c AND SEPARATE_STICK k = 0"
      and touched: "lpad_touched m"
      and clear: "state_buttons st AND LPADTOUCH k = 0" "state_buttons st AND STICKTILT k = 0"
      and bits: "STICKPRESS k AND LPADTOUCH k = 0" "STICKPRESS k AND STICKTILT k = 0"
  shows "(filter is_left_pad (input_dispatches env k ctrl old st m) = [PadWhole LEFT 0 0 LEFT]
          \<longleftrightarrow> list_all (\<lambda>d. handler_fault env d = None)
                (takeWhile (\<lambda>d. \<not> is_left_pad d) (input_dispatches env k ctrl old st m)))
       \<and> (filter is_left_pad (input_dispatches env k ctrl old st m) = [PadWhole LEFT 0 0 LEFT]
            \<and> \<not> lpad_touched (snd (input env k ctrl old st m))
          \<or> filter is_left_pad (input_dispatches env k ctrl old st m) = []
            \<and> lpad_touched (snd (input env k ctrl old st m)))
       \<and> controller (snd (input env k ctrl old st m)) = Some c"
proof -
  define m4 where "m4 = m\<lparr>old_state := Some old, old_buttons := buttons m, state := Some st,
             buttons := quirk k (state_buttons st), force_event := {}\<rparr>"
  have m4: "controller m4 = Some c" "lpad_touched m4"
      "buttons m4 AND LPADTOUCH k = 0" "buttons m4 AND STICKTILT k = 0"
    using c touched quirk_keeps_clear [OF bits(1) clear(1)] quirk_keeps_clear [OF bits(2) clear(2)]
    by (simp_all add: m4_def)
  have same: "input_dispatches env k ctrl old st m
      = drop (length (dispatched m4))
          (dispatched (snd (dispatch_block env k (force_event m) ctrl old st m4)))"
    by (simp add: input_dispatches_def input_dispatched m4_def)
  have keeps: "lpad_touched (snd (input env k ctrl old st m))
      = lpad_touched (snd (dispatch_block env k (force_event m) ctrl old st m4))"
    "controller (snd (input env k ctrl old st m))
      = controller (snd (dispatch_block env k (force_event m) ctrl old st m4))"
    by (simp_all add: input_keeps m4_def)
  show ?thesis
    unfolding same keeps
    by (rule release_block_cases [OF m4(1) c(2) m4(2,3,4)])
qed

lemma triple_dispatch_block_released:
  assumes "flags c AND SEPARATE_STICK k = 0" and "B AND LPADTOUCH k = 0" and "\<not> T"
  shows "triple (\<lambda>m. controller m = Some c \<and> buttons m = B \<and> lpad_touched m = T)
           (dispatch_block env k fe ctrl old st) (\<lambda>d. \<not> is_left_pad d)"
proof (rule tripleI)
  fix m :: mapper
  assume q: "controller m = Some c \<and> buttons m = B \<and> lpad_touched m = T"
  have "triple (\<lambda>m. controller m = Some c \<and> buttons m = B \<and> lpad_touched m = T)
          (run_steps
            [check_buttons env ((old_buttons m XOR buttons m) AND buttons m)
               ((old_buttons m XOR buttons m) AND old_buttons m),
             check_sticks env k fe old st, check_gyro env ctrl st,
             check_triggers env fe old st,
             check_rpad env k fe ((old_buttons m XOR buttons m) AND old_buttons m) ctrl old st,
             check_dpad env k fe ctrl old st, check_lpad env k fe old st,
             check_cpad env k fe ctrl old st])
          (\<lambda>d. \<not> is_left_pad d)"
    by (rule triple_run_steps)
       (auto simp: triple_check_buttons triple_check_sticks triple_check_gyro
          triple_check_triggers triple_check_rpad triple_check_dpad triple_check_cpad
          triple_check_lpad_released [OF assms])
  from tripleD [OF this q]
  show "(controller (snd (dispatch_block env k fe ctrl old st m)) = Some c
          \<and> buttons (snd (dispatch_block env k fe ctrl old st m)) = B
          \<and> lpad_touched (snd (dispatch_block env k fe ctrl old st m)) = T)
      \<and> (\<exists>ds. dispatched (snd (dispatch_block env k fe ctrl old st m)) = dispatched m @ ds
              \<and> list_all (\<lambda>d. \<not> is_left_pad d) ds)"
    by (simp add: dispatch_block_def Let_def)
qed

lemma released_cycle:
  assumes c: "controller m = Some c" "flags c AND SEPARATE_STICK k = 0"
      and untouched: "\<not> lpad_touched m"
      and clear: "state_buttons st AND LPADTOUCH k = 0"
      and bits: "STICKPRESS k AND LPADTOUCH k = 0"
  shows "controller (snd (input env k ctrl old st m)) = Some c
       \<and> \<not> lpad_touched (snd (input env k ctrl old st m))
       \<and> (\<exists>ds. dispatched (snd (input env k ctrl old st m)) = dispatched m @ ds
               \<and> list_all (\<lambda>d. \<not> is_left_pad d) ds)"
proof -
  define m4 where "m4 = m\<lparr>old_state := Some old, old_buttons := buttons m, state := Some st,
             buttons := quirk k (state_buttons st), force_event := {}\<rparr>"
  have q: "controller m4 = Some c \<and> buttons m4 = quirk k (state_buttons st)
             \<and> lpad_touched m4 = False"
    using c untouched by (simp add: m4_def)
  have "\<not> False" by simp
  from tripleD [OF triple_dispatch_block_released
      [OF c(2) quirk_keeps_clear [OF bits clear] this, of env "force_event m" ctrl old st] q]
  show ?thesis
    by (simp add: input_keeps input_dispatched m4_def)
qed

lemma released_cycles:
  assumes "controller m = Some c" and "flags c AND SEPARATE_STICK k = 0"
      and "\<not> lpad_touched m"
      and "\<forall>cyc \<in> set cycles. state_buttons (snd (snd cyc)) AND LPADTOUCH k = 0"
      and "STICKPRESS k AND LPADTOUCH k = 0"
  shows "\<exists>ds. dispatched (input_cycles env k cycles m) = dispatched m @ ds
             \<and> list_all (\<lambda>d. \<not> is_left_pad d) ds"
  using assms
proof (induction cycles arbitrary: m)
  case Nil
  then show ?case by simp
next
  case (Cons cyc cycles)
  obtain ctrl old st where cyc: "cyc = (ctrl, old, st)"
    by (cases cyc) auto
  define m1 where "m1 = snd (input env k ctrl old st m)"
  have st: "state_buttons st AND LPADTOUCH k = 0"
    using Cons.prems(4) cyc by simp
  from released_cycle [OF Cons.prems(1,2,3) st Cons.prems(5), of env ctrl old]
  obtain ds1 where m1: "controller m1 = Some c" "\<not> lpad_touched m1"
      "dispatched m1 = dispatched m @ ds1" "list_all (\<lambda>d. \<not> is_left_pad d) ds1"
    unfolding m1_def by blast
  have "\<forall>cyc \<in> set cycles. state_buttons (snd (snd cyc)) AND LPADTOUCH k = 0"
    using Cons.prems(4) by simp
  from Cons.IH [OF m1(1) Cons.prems(2) m1(2) this Cons.prems(5)]
  obtain ds2 where "dispatched (input_cycles env k cycles m1) = dispatched m1 @ ds2"
      "list_all (\<lambda>d. \<not> is_left_pad d) ds2"
    by blast
  then show ?case
    using m1(3,4) unfolding cyc
    by (intro exI [of _ "ds1 @ ds2"]) (simp add: m1_def)
qed

text \<open>
  Claim C8, as the code has it. A mapper with a controller that has no separate stick and with the
  left pad marked as touched gets a state whose touch bit and stick-tilt bit are clear.
  The cycle makes exactly one call on \<open>pads[LEFT]\<close>, which is \<open>whole(mapper, 0, 0, LEFT)\<close>,
  exactly when every handler call made before it in the cycle returned; the mark is then
  cleared, and in the cycles after it, as long as the touch bit stays clear, no call on
  \<open>pads[LEFT]\<close> is made at all. Otherwise an exception ended the \<open>try\<close> block before the
  left pad was looked at: the cycle makes no call on \<open>pads[LEFT]\<close> and leaves the mark
  set, so that the statement holds again of the next cycle. The constants are taken with
  \<open>STICKPRESS\<close> disjoint from \<open>LPADTOUCH\<close> and \<open>STICKTILT\<close>, so that the quirk cannot
  set either bit.
\<close>

theorem left_pad_release_dispatch:
  assumes "controller m = Some c" and "flags c AND SEPARATE_STICK k = 0"
      and "lpad_touched m"
      and "state_buttons st AND LPADTOUCH k = 0" and "state_buttons st AND STICKTILT k = 0"
      and "STICKPRESS k AND LPADTOUCH k = 0" and "STICKPRESS k AND STICKTILT k = 0"
      and "\<forall>cyc \<in> set cycles. state_buttons (snd (snd cyc)) AND LPADTOUCH k = 0"
  shows "(filter is_left_pad (input_dispatches env k ctrl old st m) = [PadWhole LEFT 0 0 LEFT]
          \<longleftrightarrow> list_all (\<lambda>d. handler_fault env d = None)
                (takeWhile (\<lambda>d. \<not> is_left_pad d) (input_dispatches env k ctrl old st m)))
       \<and> (filter is_left_pad (input_dispatches env k ctrl old st m) = [PadWhole LEFT 0 0 LEFT]
            \<and> \<not> lpad_touched (snd (input env k ctrl old st m))
          \<or> filter is_left_pad (input_dispatches env k ctrl old st m) = []
            \<and> lpad_touched (snd (input env k ctrl old st m)))
       \<and> controller (snd (input env k ctrl old st m)) = Some c
       \<and> (filter is_left_pad (input_dispatches env k ctrl old st m) = [PadWhole LEFT 0 0 LEFT]
            \<longrightarrow> filter is_left_pad
                  (drop (length (dispatched (snd (input env k ctrl old st m))))
                     (dispatched (input_cycles env k cycles (snd (input env k ctrl old st m)))))
                = [])"
proof -
  define m1 where "m1 = snd (input env k ctrl old st m)"
  note cases = release_cycle_cases [OF assms(1-7), of env ctrl old, folded m1_def]
  have later: "filter is_left_pad
                  (drop (length (dispatched m1)) (dispatched (input_cycles env k cycles m1))) = []"
    if "filter is_left_pad (input_dispatches env k ctrl old st m) = [PadWhole LEFT 0 0 LEFT]"
  proof -
    have m1: "\<not> lpad_touched m1" "controller m1 = Some c"
      using cases that by auto
    obtain ds where "dispatched (input_cycles env k cycles m1) = dispatched m1 @ ds"
        "list_all (\<lambda>d. \<not> is_left_pad d) ds"
      using released_cycles [OF m1(2) assms(2) m1(1) assms(8,6)] by blast
    then show ?thesis
      by (simp add: filter_none)
  qed
  show ?thesis
    unfolding m1_def [symmetric] using cases later by blast
qed

theorem left_pad_release_dispatch_witness:
  "handler_fault (faulty (PadWhole LEFT 0 0 LEFT)) (PadWhole LEFT 0 0 LEFT) = Some ActionError
   \<and> filter is_left_pad
       (input_dispatches (faulty (PadWhole LEFT 0 0 LEFT)) example_constants plain_controller
          idle_state idle_state touched_mapper) = [PadWhole LEFT 0 0 LEFT]
   \<and> \<not> lpad_touched (snd (input (faulty (PadWhole LEFT 0 0 LEFT)) example_constants
                            plain_controller idle_state idle_state touched_mapper))
   \<and> filter is_left_pad
       (drop (length (dispatched (snd (input (faulty (PadWhole LEFT 0 0 LEFT)) example_constants
                                        plain_controller idle_state idle_state touched_mapper))))
          (dispatched (input_cycles (faulty (PadWhole LEFT 0 0 LEFT)) example_constants
             [(plain_controller, idle_state, idle_state),
              (plain_controller, idle_state, idle_state\<lparr>state_buttons := 0x8000\<rparr>)]
             (snd (input (faulty (PadWhole LEFT 0 0 LEFT)) example_constants plain_controller
                     idle_state idle_state touched_mapper))))) = []"
proof -
  define env where "env = faulty (PadWhole LEFT 0 0 LEFT)"
  have c: "controller touched_mapper = Some plain_controller"
    by (simp add: touched_mapper_def example_mapper_def set_controller_def)
  have f: "flags plain_controller AND SEPARATE_STICK example_constants = 0"
    by (simp add: plain_controller_def)
  have t: "lpad_touched touched_mapper"
    by (simp add: touched_mapper_def)
  have s1: "state_buttons idle_state AND LPADTOUCH example_constants = 0"
    by (simp add: idle_state_def)
  have s2: "state_buttons idle_state AND STICKTILT example_constants = 0"
    by (simp add: idle_state_def)
  have k1: "STICKPRESS example_constants AND LPADTOUCH example_constants = 0"
    by (simp add: example_constants_def)
  have k2: "STICKPRESS example_constants AND STICKTILT example_constants = 0"
    by (simp add: example_constants_def)
  have later: "\<forall>cyc \<in> set [(plain_controller, idle_state, idle_state),
                  (plain_controller, idle_state, idle_state\<lparr>state_buttons := 0x8000\<rparr>)].
                 state_buttons (snd (snd cyc)) AND LPADTOUCH example_constants = 0"
    by (simp add: idle_state_def example_constants_def)
  have fault: "handler_fault env (PadWhole LEFT 0 0 LEFT) = Some ActionError"
    by (simp add: env_def faulty_def)
  have calls: "input_dispatches env example_constants plain_controller idle_state idle_state
                 touched_mapper = [PadWhole LEFT 0 0 LEFT]"
    unfolding input_dispatches_def
    by (simp add: cycle_defs example_defs touched_mapper_def env_def faulty_def)
  have before: "list_all (\<lambda>d. handler_fault env d = None)
      (takeWhile (\<lambda>d. \<not> is_left_pad d)
         (input_dispatches env example_constants plain_controller idle_state idle_state
            touched_mapper))"
    by (simp add: calls)
  note release = left_pad_release_dispatch [OF c f t s1 s2 k1 k2 later,
      of env plain_controller idle_state]
  have made: "filter is_left_pad
       (input_dispatches env example_constants plain_controller idle_state idle_state
          touched_mapper) = [PadWhole LEFT 0 0 LEFT]"
    using release [THEN conjunct1] before by (rule iffD2)
  have "\<not> lpad_touched (snd (input env example_constants plain_controller idle_state idle_state
                               touched_mapper))"
    using release [THEN conjunct2, THEN conjunct1] made by simp
  moreover have "filter is_left_pad
       (drop (length (dispatched (snd (input env example_constants plain_controller idle_state
                                        idle_state touched_mapper))))
          (dispatched (input_cycles env example_constants
             [(plain_controller, idle_state, idle_state),
              (plain_controller, idle_state, idle_state\<lparr>state_buttons := 0x8000\<rparr>)]
             (snd (input env example_constants plain_controller idle_state idle_state
                     touched_mapper))))) = []"
    using release [THEN conjunct2, THEN conjunct2, THEN conjunct2] made by (rule mp)
  ultimately show ?thesis
    using fault made unfolding env_def by (intro conjI)
qed

text \<open>
  The claim as stated has the zero/zero call in the cycle of the release and none later.
  With a stick handler that raises, the cycle in which the touch bit goes from set to clear
  ends at the stick call (the pad coordinates changed), before the left pad is looked at;
  the zero/zero call is made by the next cycle, in which the touch bit was clear already.
\<close>

theorem left_pad_release_deferred:
  "lpad_touched touched_mapper
   \<and> buttons touched_mapper AND LPADTOUCH example_constants \<noteq> 0
   \<and> state_buttons idle_state AND LPADTOUCH example_constants = 0
   \<and> state_buttons idle_state AND STICKTILT example_constants = 0
   \<and> input_dispatches (faulty (StickWhole 0 0 STICK)) example_constants plain_controller
        (idle_state\<lparr>state_buttons := 0x08000000, lpad_x := 100\<rparr>) idle_state touched_mapper
      = [StickWhole 0 0 STICK]
   \<and> input_dispatches (faulty (StickWhole 0 0 STICK)) example_constants plain_controller
        idle_state idle_state
        (snd (input (faulty (StickWhole 0 0 STICK)) example_constants plain_controller
                (idle_state\<lparr>state_buttons := 0x08000000, lpad_x := 100\<rparr>) idle_state
                touched_mapper))
      = [PadWhole LEFT 0 0 LEFT]"
proof -
  have first: "input (faulty (StickWhole 0 0 STICK)) example_constants plain_controller
        (idle_state\<lparr>state_buttons := 0x08000000, lpad_x := 100\<rparr>) idle_state touched_mapper
      = (None, touched_mapper\<lparr>old_state := Some (idle_state\<lparr>state_buttons := 0x08000000,
                                                    lpad_x := 100\<rparr>),
                 old_buttons := 0x08000000, state := Some idle_state, buttons := 0,
                 dispatched := [StickWhole 0 0 STICK], error_log := [ActionError]\<rparr>)"
    by (simp add: cycle_defs example_defs touched_mapper_def faulty_def)
  have second: "input_dispatches (faulty (StickWhole 0 0 STICK)) example_constants
        plain_controller idle_state idle_state
        (touched_mapper\<lparr>old_state := Some (idle_state\<lparr>state_buttons := 0x08000000,
                                                    lpad_x := 100\<rparr>),
                 old_buttons := 0x08000000, state := Some idle_state, buttons := 0,
                 dispatched := [StickWhole 0 0 STICK], error_log := [ActionError]\<rparr>)
      = [PadWhole LEFT 0 0 LEFT]"
    unfolding input_dispatches_def
    by (simp add: cycle_defs example_defs touched_mapper_def faulty_def)
  have start: "lpad_touched touched_mapper"
      "buttons touched_mapper AND LPADTOUCH example_constants \<noteq> 0"
      "state_buttons idle_state AND LPADTOUCH example_constants = 0"
      "state_buttons idle_state AND STICKTILT example_constants = 0"
    by (simp_all add: touched_mapper_def example_defs)
  have "input_dispatches (faulty (StickWhole 0 0 STICK)) example_constants plain_controller
        (idle_state\<lparr>state_buttons := 0x08000000, lpad_x := 100\<rparr>) idle_state touched_mapper
      = [StickWhole 0 0 STICK]"
    unfolding input_dispatches_def first by (simp add: touched_mapper_def example_defs)
  then show ?thesis
    using start by (simp add: first second)
qed

section \<open>Theorems: an unchanged state\<close>

lemma same_fields_refl [simp]: "same_fields m m"
  by (simp add: same_fields_def)

lemma same_fields_trans: "same_fields m m1 \<Longrightarrow> same_fields m1 m2 \<Longrightarrow> same_fields m m2"
  by (simp add: same_fields_def)

lemma touches_only_run_steps:
  "(\<And>f. f \<in> set fs \<Longrightarrow> touches_only f) \<Longrightarrow> touches_only (run_steps fs)"
proof (induction fs)
  case Nil
  show ?case by (simp add: touches_only_def)
next
  case (Cons f fs)
  have f: "touches_only f" and rest: "touches_only (run_steps fs)"
    using Cons by simp_all
  show ?case
    unfolding touches_only_def
  proof
    fix m
    obtain e m1 where fm: "f m = (e, m1)" by (cases "f m")
    have m1: "same_fields m m1"
      using f fm by (auto simp: touches_only_def dest: spec [of _ m])
    show "same_fields m (snd (run_steps (f # fs) m))"
    proof (cases e)
      case None
      have "same_fields m1 (snd (run_steps fs m1))"
        using rest by (simp add: touches_only_def)
      then show ?thesis
        using None fm same_fields_trans [OF m1] by simp
    next
      case (Some a)
      then show ?thesis using fm m1 by simp
    qed
  qed
qed

lemma touches_only_sections:
  "touches_only (check_buttons env a r)"
  "touches_only (check_sticks env k fe old st)"
  "touches_only (check_gyro env ctrl st)"
  "touches_only (check_triggers env fe old st)"
  "touches_only (check_rpad env k fe r ctrl old st)"
  "touches_only (check_dpad env k fe ctrl old st)"
  "touches_only (check_lpad env k fe old st)"
  "touches_only (check_cpad env k fe ctrl old st)"
proof -
  show "touches_only (check_buttons env a r)"
    unfolding touches_only_def
  proof
    fix m
    obtain ds where "snd (check_buttons env a r m) = m\<lparr>dispatched := dispatched m @ ds\<rparr>"
      using check_buttons_frame by blast
    then show "same_fields m (snd (check_buttons env a r m))"
      by (simp add: same_fields_def)
  qed
  show "touches_only (check_sticks env k fe old st)"
    by (auto simp: touches_only_def same_fields_def check_sticks_def call_def
          with_self_controller_def split: option.splits)
  show "touches_only (check_gyro env ctrl st)"
    by (auto simp: touches_only_def same_fields_def check_gyro_def call_def)
  show "touches_only (check_triggers env fe old st)"
    by (auto simp: touches_only_def same_fields_def check_triggers_def call_def
          split: option.splits)
  show "touches_only (check_rpad env k fe r ctrl old st)"
    by (auto simp: touches_only_def same_fields_def check_rpad_def call_def)
  show "touches_only (check_dpad env k fe ctrl old st)"
    by (auto simp: touches_only_def same_fields_def check_dpad_def call_def)
  show "touches_only (check_lpad env k fe old st)"
    by (auto simp: touches_only_def same_fields_def check_lpad_def call_def
          with_self_controller_def split: option.splits)
  show "touches_only (check_cpad env k fe ctrl old st)"
    by (auto simp: touches_only_def same_fields_def check_cpad_def call_def)
qed

lemma touches_only_dispatch_block: "touches_only (dispatch_block env k fe ctrl old st)"
  unfolding touches_only_def
proof
  fix m :: mapper
  have "touches_only (run_steps
          [check_buttons env ((old_buttons m XOR buttons m) AND buttons m)
             ((old_buttons m XOR buttons m) AND old_buttons m),
           check_sticks env k fe old st, check_gyro env ctrl st,
           check_triggers env fe old st,
           check_rpad env k fe ((old_buttons m XOR buttons m) AND old_buttons m) ctrl old st,
           check_dpad env k fe ctrl old st, check_lpad env k fe old st,
           check_cpad env k fe ctrl old st])"
    by (rule touches_only_run_steps) (auto simp: touches_only_sections)
  then show "same_fields m (snd (dispatch_block env k fe ctrl old st m))"
    by (simp add: touches_only_def dispatch_block_def Let_def)
qed

lemma and_or_zero:
  fixes b l t :: int
  shows "b AND (l OR t) = 0 \<longleftrightarrow> b AND l = 0 \<and> b AND t = 0"
  unfolding and_zero_iff_bits by (auto simp: bit_or_iff)

lemma quirk_tilt:
  assumes "quirk k b AND STICKTILT k = 0" and "quirk k b AND LPADTOUCH k \<noteq> 0"
  shows "b AND STICKTILT k = 0"
proof (cases "b AND LPAD k \<noteq> 0 \<and> \<not> (b AND (LPADTOUCH k OR STICKTILT k) \<noteq> 0)")
  case True
  then show ?thesis by (simp add: and_or_zero)
next
  case False
  then have "quirk k b = b" by (auto simp: quirk_def)
  with assms(1) show ?thesis by simp
qed

lemma steady_check_buttons:
  "triple (steady k st C) (check_buttons env 0 0) (repeat_call k ctrl st C)"
  by (rule tripleI) (simp add: check_buttons_def)

lemma steady_check_sticks:
  "triple (steady k st C) (check_sticks env k {} st st) (repeat_call k ctrl st C)"
  by (rule tripleI)
     (auto simp: check_sticks_def with_self_controller_def split: option.splits)

lemma steady_check_gyro:
  "triple (steady k st C) (check_gyro env ctrl st) (repeat_call k ctrl st C)"
  by (rule tripleI)
     (auto simp: check_gyro_def call_def steady_def settled_def repeat_call_def)

lemma steady_check_triggers:
  "triple (steady k st C) (check_triggers env {} st st) (repeat_call k ctrl st C)"
  by (rule tripleI) (auto simp: check_triggers_def)

lemma steady_check_rpad:
  "triple (steady k st C) (check_rpad env k {} 0 ctrl st st) (repeat_call k ctrl st C)"
  by (rule tripleI)
     (auto simp: check_rpad_def call_def steady_def settled_def repeat_call_def)

lemma steady_check_dpad:
  "triple (steady k st C) (check_dpad env k {} ctrl st st) (repeat_call k ctrl st C)"
  by (rule tripleI) (auto simp: check_dpad_def)

lemma steady_check_cpad:
  "triple (steady k st C) (check_cpad env k {} ctrl st st) (repeat_call k ctrl st C)"
  by (rule tripleI) (auto simp: check_cpad_def steady_def)

lemma steady_check_lpad:
  "triple (steady k st C) (check_lpad env k {} st st) (repeat_call k ctrl st C)"
proof (rule tripleI)
  fix m :: mapper
  assume q: "steady k st C m"
  then have b: "buttons m = quirk k (state_buttons st)" and C: "controller m = C"
    by (simp_all add: steady_def settled_def)
  show "steady k st C (snd (check_lpad env k {} st st m))
      \<and> (\<exists>ds. dispatched (snd (check_lpad env k {} st st m)) = dispatched m @ ds
              \<and> list_all (repeat_call k ctrl st C) ds)"
  proof (cases C)
    case None
    then show ?thesis
      using q C by (simp add: check_lpad_def with_self_controller_def)
  next
    case (Some c)
    show ?thesis
    proof (cases "flags c AND SEPARATE_STICK k \<noteq> 0")
      case True
      then show ?thesis
        using q C Some by (simp add: check_lpad_def with_self_controller_def)
    next
      case sep: False
      show ?thesis
      proof (cases "buttons m AND LPADTOUCH k \<noteq> 0")
        case True
        have no_recenter: "\<not> (state_buttons st AND STICKTILT k \<noteq> 0 \<and> buttons m AND STICKTILT k = 0)"
          using quirk_tilt [of k "state_buttons st"] True b by auto
        show ?thesis
          using q C Some sep True no_recenter b
          by (auto simp: check_lpad_def with_self_controller_def call_def steady_def
                settled_def repeat_call_def split: option.splits)
      next
        case False
        then show ?thesis
          using q C Some sep
          by (auto simp: check_lpad_def with_self_controller_def call_def steady_def
                settled_def)
      qed
    qed
  qed
qed

lemma steady_dispatch_block:
  "triple (steady k st C) (dispatch_block env k {} ctrl st st) (repeat_call k ctrl st C)"
proof (rule tripleI)
  fix m :: mapper
  assume q: "steady k st C m"
  then have same: "old_buttons m = buttons m"
    by (simp add: steady_def)
  have steps: "triple (steady k st C)
          (run_steps
            [check_buttons env 0 0, check_sticks env k {} st st, check_gyro env ctrl st,
             check_triggers env {} st st, check_rpad env k {} 0 ctrl st st,
             check_dpad env k {} ctrl st st, check_lpad env k {} st st,
             check_cpad env k {} ctrl st st])
          (repeat_call k ctrl st C)"
    by (rule triple_run_steps)
       (auto simp: steady_check_buttons steady_check_sticks steady_check_gyro
          steady_check_triggers steady_check_rpad steady_check_dpad steady_check_lpad
          steady_check_cpad)
  have block: "dispatch_block env k {} ctrl st st m =
      run_steps
        [check_buttons env 0 0, check_sticks env k {} st st, check_gyro env ctrl st,
         check_triggers env {} st st, check_rpad env k {} 0 ctrl st st,
         check_dpad env k {} ctrl st st, check_lpad env k {} st st,
         check_cpad env k {} ctrl st st] m"
    by (simp add: dispatch_block_def Let_def same del: run_steps.simps)
  show "steady k st C (snd (dispatch_block env k {} ctrl st st m))
      \<and> (\<exists>ds. dispatched (snd (dispatch_block env k {} ctrl st st m)) = dispatched m @ ds
              \<and> list_all (repeat_call k ctrl st C) ds)"
    unfolding block by (rule tripleD [OF steps q])
qed

lemma generate_feedback_same_fields:
  "force_event (snd (generate_feedback env m)) = force_event m"
  "old_buttons (snd (generate_feedback env m)) = old_buttons m"
  by (auto simp: generate_feedback_def feedback_slot0_def feedback_slot1_def Let_def
           split: option.splits)

lemma lpad_settles:
  assumes "check_lpad env k fe old st m = (None, m')"
      and "buttons m = quirk k (state_buttons st)"
  shows "settled k st m'"
proof (cases "controller m")
  case None
  then show ?thesis
    using assms by (simp add: check_lpad_def with_self_controller_def)
next
  case (Some c)
  then show ?thesis
    using assms
    by (auto simp: check_lpad_def with_self_controller_def call_def settled_def
          split: if_splits option.splits)
qed

lemma run_steps_returned:
  assumes "run_steps (fs @ gs) m = (None, m')"
  shows "\<exists>m1. run_steps fs m = (None, m1) \<and> run_steps gs m1 = (None, m')"
  using assms
  by (auto simp: run_steps_append split: prod.splits option.splits)

lemma block_settles:
  assumes ret: "dispatch_block env k fe ctrl old st m = (None, m')"
      and b: "buttons m = quirk k (state_buttons st)"
  shows "settled k st m'"
proof -
  define r where "r = (old_buttons m XOR buttons m) AND old_buttons m"
  define a where "a = (old_buttons m XOR buttons m) AND buttons m"
  define pre where "pre = [check_buttons env a r, check_sticks env k fe old st,
     check_gyro env ctrl st, check_triggers env fe old st,
     check_rpad env k fe r ctrl old st, check_dpad env k fe ctrl old st]"
  have block: "dispatch_block env k fe ctrl old st m =
                 run_steps (pre @ [check_lpad env k fe old st, check_cpad env k fe ctrl old st]) m"
    by (simp add: dispatch_block_def Let_def pre_def a_def r_def)
  obtain ma where ma: "run_steps pre m = (None, ma)"
      "run_steps [check_lpad env k fe old st, check_cpad env k fe ctrl old st] ma = (None, m')"
    using run_steps_returned [OF ret [unfolded block]] by blast
  obtain mb where mb: "check_lpad env k fe old st ma = (None, mb)"
      "check_cpad env k fe ctrl old st mb = (None, m')"
    using ma(2) by (auto split: prod.splits option.splits)
  have "touches_only (run_steps pre)"
    unfolding pre_def by (rule touches_only_run_steps) (auto simp: touches_only_sections)
  then have "same_fields m ma"
    using ma(1) by (auto simp: touches_only_def dest: spec [of _ m])
  then have "buttons ma = quirk k (state_buttons st)"
    using b by (simp add: same_fields_def)
  then have sb: "settled k st mb"
    using lpad_settles [OF mb(1)] by simp
  have "triple (\<lambda>m. controller m = controller mb \<and> buttons m = buttons mb
                    \<and> lpad_touched m = lpad_touched mb)
          (check_cpad env k fe ctrl old st) (\<lambda>d. \<not> is_left_pad d)"
    by (rule triple_check_cpad)
  from tripleD [OF this, of mb] mb(2)
  have "controller m' = controller mb" "buttons m' = buttons mb" "lpad_touched m' = lpad_touched mb"
    by simp_all
  with sb show ?thesis
    by (simp add: settled_def)
qed

lemma first_call_settles:
  assumes ret: "input env k ctrl old st m = (None, m1)"
      and nolog: "error_log m1 = error_log m"
  shows "settled k st m1 \<and> force_event m1 = {}"
proof -
  define m4 where "m4 = m\<lparr>old_state := Some old, old_buttons := buttons m, state := Some st,
             buttons := quirk k (state_buttons st), force_event := {}\<rparr>"
  obtain e m5 where blk: "dispatch_block env k (force_event m) ctrl old st m4 = (e, m5)"
    by (cases "dispatch_block env k (force_event m) ctrl old st m4")
  have frame: "same_fields m4 m5"
    using touches_only_dispatch_block [of env k "force_event m" ctrl old st] blk
    by (auto simp: touches_only_def dest: spec [of _ m4])
  have e: "e = None"
  proof (cases e)
    case None
    then show ?thesis .
  next
    case (Some x)
    show ?thesis
    proof (cases "testing m5")
      case True
      then have "input env k ctrl old st m = (Some x, m5)"
        using blk Some by (simp add: input_def Let_def m4_def)
      with ret show ?thesis by simp
    next
      case False
      then have "snd (input env k ctrl old st m)
                   = snd (generate_feedback env (m5\<lparr>error_log := error_log m5 @ [x]\<rparr>))"
        using blk Some by (simp add: input_def Let_def m4_def)
      then have "error_log m1 = error_log m5 @ [x]"
        using ret by (simp add: generate_feedback_keeps)
      moreover have "error_log m5 = error_log m"
        using frame by (simp add: same_fields_def m4_def)
      ultimately show ?thesis
        using nolog by simp
    qed
  qed
  have m1: "m1 = snd (generate_feedback env m5)"
    using blk e ret by (simp add: input_def Let_def m4_def)
  have "settled k st m5"
    using block_settles [OF blk [unfolded e]] by (simp add: m4_def)
  then have "settled k st m1"
    by (simp add: settled_def m1 generate_feedback_keeps)
  moreover have "force_event m1 = {}"
    using frame by (simp add: m1 generate_feedback_same_fields same_fields_def m4_def)
  ultimately show ?thesis by simp
qed

text \<open>
  Claim C2, as the code has it. A call of \<open>input\<close> has returned without an exception in
  its \<open>try\<close> block (it returned normally and logged nothing). A second call with the same
  state as old and new state then finds no force-event flag, and every handler call it makes
  is a gyro call or the call for a pad that is being touched: \<open>pads[RIGHT]\<close> when
  \<open>RPADTOUCH\<close> is set and the controller passed in is neither a Deck nor has a right
  stick, \<open>pads[LEFT]\<close> when \<open>LPADTOUCH\<close> is set and the mapper's controller has no
  separate stick. No stick, trigger, D-pad or touchpad handler is called, and no pad
  handler when no pad is touched.
\<close>

theorem repeated_input_dispatches:
  assumes "input env k ctrl old st m = (None, m1)"
      and "error_log m1 = error_log m"
  shows "force_event m1 = {}
       \<and> list_all (repeat_call k ctrl st (controller m1)) (input_dispatches env k ctrl st st m1)"
proof -
  have s: "settled k st m1" and fe: "force_event m1 = {}"
    using first_call_settles [OF assms] by simp_all
  define m4 where "m4 = m1\<lparr>old_state := Some st, old_buttons := buttons m1, state := Some st,
             buttons := quirk k (state_buttons st), force_event := {}\<rparr>"
  have b: "buttons m1 = quirk k (state_buttons st)"
    using s by (simp add: settled_def)
  have "steady k st (controller m1) m4"
    using s b by (simp add: steady_def settled_def m4_def)
  from tripleD [OF steady_dispatch_block this, of env ctrl]
  obtain ds where "dispatched (snd (dispatch_block env k {} ctrl st st m4)) = dispatched m4 @ ds"
      "list_all (repeat_call k ctrl st (controller m1)) ds"
    by blast
  then have "input_dispatches env k ctrl st st m1 = ds"
    by (simp add: input_dispatches_def input_dispatched fe m4_def)
  then show ?thesis
    using \<open>list_all (repeat_call k ctrl st (controller m1)) ds\<close> fe by simp
qed

lemma first_right_touch:
  "input quiet_handlers example_constants plain_controller idle_state right_touch_state
     example_mapper
   = (None, example_mapper\<lparr>old_state := Some idle_state, state := Some right_touch_state,
              buttons := 0x10000000, dispatched := [PadWhole RIGHT 100 50 RIGHT]\<rparr>)"
  by (simp add: cycle_defs example_defs right_touch_state_def)

theorem repeated_input_dispatches_witness:
  "list_all (repeat_call example_constants plain_controller right_touch_state
       (Some plain_controller))
     (input_dispatches quiet_handlers example_constants plain_controller
        right_touch_state right_touch_state
        (snd (input quiet_handlers example_constants plain_controller idle_state
                right_touch_state example_mapper)))"
proof -
  define m1 where "m1 = example_mapper\<lparr>old_state := Some idle_state,
     state := Some right_touch_state, buttons := 0x10000000,
     dispatched := [PadWhole RIGHT 100 50 RIGHT]\<rparr>"
  have ret: "input quiet_handlers example_constants plain_controller idle_state right_touch_state
               example_mapper = (None, m1)"
    by (simp add: first_right_touch m1_def)
  have nolog: "error_log m1 = error_log example_mapper"
    by (simp add: m1_def)
  have c: "controller m1 = Some plain_controller"
    by (simp add: m1_def example_mapper_def set_controller_def)
  show ?thesis
    using repeated_input_dispatches [OF ret nolog] by (simp add: ret c)
qed

text \<open>
  The claim as stated has no pad call at all in the second cycle. On a controller with
  flags 0 the right pad is reported in every cycle while it is touched.
\<close>

theorem repeated_input_touched_pad:
  "input_dispatches quiet_handlers example_constants plain_controller
     right_touch_state right_touch_state
     (snd (input quiet_handlers example_constants plain_controller idle_state right_touch_state
             example_mapper))
   = [PadWhole RIGHT 100 50 RIGHT]"
  by (simp add: first_right_touch input_dispatches_def)
     (simp add: cycle_defs example_defs right_touch_state_def)

section \<open>Theorems: retry batches\<close>

lemma batch_times_append: "batch_times (xs @ ys) = batch_times xs @ batch_times ys"
  by (induction xs rule: batch_times.induct) auto

lemma attempts_append: "attempts (xs @ ys) = attempts xs @ attempts ys"
  by (induction xs rule: attempts.induct) auto

lemma claim_device_effect:
  "retry_devices_timer (snd (claim_device env syspath vendor product device handle drv))
     = retry_devices_timer drv
   \<and> batch_times (driver_trace (snd (claim_device env syspath vendor product device handle drv)))
     = batch_times (driver_trace drv)
   \<and> attempts (driver_trace (snd (claim_device env syspath vendor product device handle drv)))
     = attempts (driver_trace drv)"
  by (auto simp: claim_device_def Let_def drv_emit_def add_error_if_daemon_def
        batch_times_append attempts_append split: option.splits sum.splits)

lemma handle_new_device_effect:
  "retry_devices_timer (snd (handle_new_device env syspath vendor product drv))
     = retry_devices_timer drv
   \<and> batch_times (driver_trace (snd (handle_new_device env syspath vendor product drv)))
     = batch_times (driver_trace drv)
   \<and> attempts (driver_trace (snd (handle_new_device env syspath vendor product drv)))
     = attempts (driver_trace drv) @ [(syspath, vendor, product)]"
proof -
  define drv0 where "drv0 = drv_emit (Attempt syspath vendor product) drv"
  have drv0: "retry_devices_timer drv0 = retry_devices_timer drv"
    "batch_times (driver_trace drv0) = batch_times (driver_trace drv)"
    "attempts (driver_trace drv0) = attempts (driver_trace drv) @ [(syspath, vendor, product)]"
    by (simp_all add: drv0_def drv_emit_def batch_times_append attempts_append)
  have "retry_devices_timer (snd (handle_new_device env syspath vendor product drv))
          = retry_devices_timer drv0
      \<and> batch_times (driver_trace (snd (handle_new_device env syspath vendor product drv)))
          = batch_times (driver_trace drv0)
      \<and> attempts (driver_trace (snd (handle_new_device env syspath vendor product drv)))
          = attempts (driver_trace drv0)"
    using claim_device_effect [of env syspath vendor product _ _ drv0]
    unfolding handle_new_device_def Let_def drv0_def [symmetric]
    by (auto simp: drv_emit_def add_error_if_daemon_def batch_times_append attempts_append
          split: option.splits sum.splits prod.splits)
  then show ?thesis
    by (simp add: drv0)
qed

lemma retry_loop_effect:
  "retry_devices_timer (snd (retry_loop env lst drv)) = retry_devices_timer drv
   \<and> batch_times (driver_trace (snd (retry_loop env lst drv))) = batch_times (driver_trace drv)"
proof (induction lst arbitrary: drv)
  case Nil
  then show ?case by simp
next
  case (Cons entry lst)
  obtain syspath vendor product where entry: "entry = (syspath, vendor, product)"
    by (cases entry) auto
  obtain r drv1 where h: "handle_new_device env syspath vendor product drv = (r, drv1)"
    by (cases "handle_new_device env syspath vendor product drv")
  have drv1: "retry_devices_timer drv1 = retry_devices_timer drv"
    "batch_times (driver_trace drv1) = batch_times (driver_trace drv)"
    using handle_new_device_effect [of env syspath vendor product drv] h by simp_all
  show ?case
    using Cons.IH [of drv1] drv1 h
    by (cases r) (simp_all add: entry)
qed

lemma retry_loop_attempts:
  "retry_loop env lst drv = (None, drv') \<Longrightarrow>
   attempts (driver_trace drv') = attempts (driver_trace drv) @ lst"
proof (induction lst arbitrary: drv)
  case Nil
  then show ?case by simp
next
  case (Cons entry lst)
  obtain syspath vendor product where entry: "entry = (syspath, vendor, product)"
    by (cases entry) auto
  obtain r drv1 where h: "handle_new_device env syspath vendor product drv = (r, drv1)"
    by (cases "handle_new_device env syspath vendor product drv")
  have drv1: "attempts (driver_trace drv1) = attempts (driver_trace drv) @ [entry]"
    using handle_new_device_effect [of env syspath vendor product drv] h entry by simp
  show ?case
  proof (cases r)
    case (Returns x)
    then have "retry_loop env lst drv1 = (None, drv')"
      using Cons.prems h by (simp add: entry)
    from Cons.IH [OF this] drv1 show ?thesis by simp
  next
    case (Raises e)
    then show ?thesis
      using Cons.prems h by (simp add: entry)
  qed
qed

lemma flush_devices_events:
  "batch_times (snd (snd (flush_devices env ds))) = []
   \<and> attempts (snd (snd (flush_devices env ds))) = []"
  by (induction env ds rule: flush_devices.induct)
     (auto split: prod.splits option.splits)

text \<open>The driver after lines 324-334 of \<open>mainloop\<close>, when the flushes let it go on.\<close>

lemma mainloop_cases:
  obtains (flush_raised) e drv1 where
      "mainloop env t_check t_set drv = (Some e, drv1)"
      "retry_devices_timer drv1 = retry_devices_timer drv"
      "retry_devices drv1 = retry_devices drv"
      "batch_times (driver_trace drv1) = batch_times (driver_trace drv)"
      "attempts (driver_trace drv1) = attempts (driver_trace drv)"
    | (no_batch) drv1 where
      "\<not> (retry_devices drv \<noteq> [] \<and> retry_devices_timer drv < t_check)"
      "mainloop env t_check t_set drv = (None, drv1)"
      "retry_devices_timer drv1 = retry_devices_timer drv"
      "retry_devices drv1 = retry_devices drv"
      "batch_times (driver_trace drv1) = batch_times (driver_trace drv)"
      "attempts (driver_trace drv1) = attempts (driver_trace drv)"
    | (batch) drv1 where
      "retry_devices drv \<noteq> []" "retry_devices_timer drv < t_check"
      "mainloop env t_check t_set drv = retry_loop env (retry_devices drv) drv1"
      "retry_devices_timer drv1 = t_set + 5"
      "batch_times (driver_trace drv1) = batch_times (driver_trace drv) @ [t_check]"
      "attempts (driver_trace drv1) = attempts (driver_trace drv)"
proof -
  define drv1 where "drv1 = (if usb_changed drv > 0
                  then (drv_emit HandleEventsTimeout drv)\<lparr>usb_changed := 0\<rparr>
                  else drv)"
  have d1: "retry_devices_timer drv1 = retry_devices_timer drv"
    "retry_devices drv1 = retry_devices drv"
    "batch_times (driver_trace drv1) = batch_times (driver_trace drv)"
    "attempts (driver_trace drv1) = attempts (driver_trace drv)"
    by (simp_all add: drv1_def drv_emit_def batch_times_append attempts_append)
  obtain e ds evs where fl: "flush_devices (usb_handles env) (devices drv1) = (e, ds, evs)"
    by (cases "flush_devices (usb_handles env) (devices drv1)")
  have evs: "batch_times evs = []" "attempts evs = []"
    using flush_devices_events [of "usb_handles env" "devices drv1"] fl by simp_all
  define drv2 where "drv2 = drv1\<lparr>devices := ds, driver_trace := driver_trace drv1 @ evs\<rparr>"
  have d2: "retry_devices_timer drv2 = retry_devices_timer drv"
    "retry_devices drv2 = retry_devices drv"
    "batch_times (driver_trace drv2) = batch_times (driver_trace drv)"
    "attempts (driver_trace drv2) = attempts (driver_trace drv)"
    by (simp_all add: drv2_def d1 evs batch_times_append attempts_append)
  show thesis
  proof (cases e)
    case (Some ex)
    then have "mainloop env t_check t_set drv = (Some ex, drv2)"
      using fl by (simp add: mainloop_def Let_def drv1_def [symmetric] drv2_def)
    then show ?thesis
      using d2 by (rule flush_raised)
  next
    case None
    show ?thesis
    proof (cases "retry_devices drv \<noteq> [] \<and> retry_devices_timer drv < t_check")
      case False
      then have "mainloop env t_check t_set drv = (None, drv2)"
        using fl None d2(1,2) d1(1,2)
        by (auto simp: mainloop_def Let_def drv1_def [symmetric] drv2_def)
      with False show ?thesis
        using d2 by (rule no_batch)
    next
      case True
      define drv4 where "drv4 = drv_emit (RetryBatch t_check)
        (drv2\<lparr>retry_devices_timer := t_set + 5, retry_devices := []\<rparr>)"
      have "mainloop env t_check t_set drv = retry_loop env (retry_devices drv) drv4"
        using fl None True d2(1,2) d1(1,2)
        by (auto simp: mainloop_def Let_def drv1_def [symmetric] drv2_def drv4_def)
      moreover have "retry_devices_timer drv4 = t_set + 5"
        "batch_times (driver_trace drv4) = batch_times (driver_trace drv) @ [t_check]"
        "attempts (driver_trace drv4) = attempts (driver_trace drv)"
        by (simp_all add: drv4_def drv_emit_def d2 batch_times_append attempts_append)
      ultimately show ?thesis
        using True by (intro batch [of drv4]) simp_all
    qed
  qed
qed

lemma spaced_snoc:
  "spaced (ts @ [t]) \<longleftrightarrow> spaced ts \<and> list_all (\<lambda>a. a + 5 < t) ts"
  by (auto simp: spaced_def sorted_wrt_append list_all_iff)

lemma mainloop_cooled:
  assumes "cooled drv" and "t_check \<le> t_set"
  shows "cooled (snd (mainloop env t_check t_set drv))"
proof (cases rule: mainloop_cases [of env t_check t_set drv])
  case (flush_raised e drv1)
  then show ?thesis using assms(1) by (simp add: cooled_def)
next
  case (no_batch drv1)
  then show ?thesis using assms(1) by (simp add: cooled_def)
next
  case (batch drv1)
  have after: "retry_devices_timer (snd (mainloop env t_check t_set drv)) = t_set + 5"
    "batch_times (driver_trace (snd (mainloop env t_check t_set drv)))
       = batch_times (driver_trace drv) @ [t_check]"
    using retry_loop_effect [of env "retry_devices drv" drv1] batch by simp_all
  have old: "list_all (\<lambda>a. a + 5 < t_check) (batch_times (driver_trace drv))"
    using assms(1) batch(2) by (auto simp: cooled_def list_all_iff)
  have "list_all (\<lambda>a. a + 5 \<le> t_set + 5) (batch_times (driver_trace drv))"
    using old assms(2) by (auto simp: list_all_iff)
  then show ?thesis
    using assms old by (simp add: cooled_def after spaced_snoc)
qed

lemma run_driver_cooled:
  assumes "cooled drv" and "list_all clock_forward calls"
  shows "cooled (run_driver env calls drv)"
  using assms
proof (induction calls arbitrary: drv)
  case Nil
  then show ?case by simp
next
  case (Cons c calls)
  show ?case
  proof (cases c)
    case (Arrival syspath vendor product)
    have "cooled (snd (handle_new_device env syspath vendor product drv))"
      using Cons.prems(1) handle_new_device_effect [of env syspath vendor product drv]
      by (simp add: cooled_def)
    then show ?thesis
      using Cons.IH Cons.prems(2) Arrival by simp
  next
    case (Tick t_check t_set)
    then have "t_check \<le> t_set"
      using Cons.prems(2) by simp
    from mainloop_cooled [OF Cons.prems(1) this]
    have "cooled (snd (mainloop env t_check t_set drv))" .
    then show ?thesis
      using Cons.IH Cons.prems(2) Tick by simp
  qed
qed

text \<open>
  Claim C7, as the code has it. A retry batch starts in the \<open>mainloop\<close> pass that finds
  the retry list non-empty and the clock past the timer; it takes the whole list, hands
  every entry to \<open>handle_new_device\<close> exactly once, in order (provided no attempt raises,
  so that \<open>mainloop\<close> returns), and sets the timer to the clock plus 5 seconds. Any other
  pass retries nothing and leaves list and timer alone. With a clock that does not run
  backwards between the two readings of a pass, any two batches of a run are more than 5
  seconds apart. The timer starts at 0 and is set by batches only, so the cool-down is
  counted from the previous batch, not from the failure that queued an entry.
\<close>

theorem retry_batches:
  assumes "list_all clock_forward calls"
      and "batch_times (driver_trace drv0) = []"
      and "mainloop env t_check t_set drv = (None, drv')"
  shows "spaced (batch_times (driver_trace (run_driver env calls drv0)))
       \<and> (retry_devices drv \<noteq> [] \<and> retry_devices_timer drv < t_check \<longrightarrow>
            new_attempts drv drv' = retry_devices drv
          \<and> new_batches drv drv' = [t_check]
          \<and> retry_devices_timer drv' = t_set + 5)
       \<and> (\<not> (retry_devices drv \<noteq> [] \<and> retry_devices_timer drv < t_check) \<longrightarrow>
            new_attempts drv drv' = []
          \<and> new_batches drv drv' = []
          \<and> retry_devices drv' = retry_devices drv
          \<and> retry_devices_timer drv' = retry_devices_timer drv)"
proof -
  have "cooled drv0"
    using assms(2) by (simp add: cooled_def spaced_def)
  then have "cooled (run_driver env calls drv0)"
    using assms(1) by (rule run_driver_cooled)
  then have first: "spaced (batch_times (driver_trace (run_driver env calls drv0)))"
    by (simp add: cooled_def)
  have second: "new_attempts drv drv' = retry_devices drv \<and> new_batches drv drv' = [t_check]
                  \<and> retry_devices_timer drv' = t_set + 5"
    if "retry_devices drv \<noteq> [] \<and> retry_devices_timer drv < t_check"
  proof (cases rule: mainloop_cases [of env t_check t_set drv])
    case (flush_raised e drv1)
    then show ?thesis using assms(3) by simp
  next
    case (no_batch drv1)
    then show ?thesis using that by simp
  next
    case (batch drv1)
    then have loop: "retry_loop env (retry_devices drv) drv1 = (None, drv')"
      using assms(3) by simp
    have "attempts (driver_trace drv') = attempts (driver_trace drv) @ retry_devices drv"
      using retry_loop_attempts [OF loop] batch by simp
    moreover have "retry_devices_timer drv' = t_set + 5"
      "batch_times (driver_trace drv') = batch_times (driver_trace drv) @ [t_check]"
      using retry_loop_effect [of env "retry_devices drv" drv1] loop batch by simp_all
    ultimately show ?thesis
      by (simp add: new_attempts_def new_batches_def)
  qed
  have third: "new_attempts drv drv' = [] \<and> new_batches drv drv' = []
                 \<and> retry_devices drv' = retry_devices drv
                 \<and> retry_devices_timer drv' = retry_devices_timer drv"
    if "\<not> (retry_devices drv \<noteq> [] \<and> retry_devices_timer drv < t_check)"
  proof (cases rule: mainloop_cases [of env t_check t_set drv])
    case (flush_raised e drv1)
    then show ?thesis using assms(3) by simp
  next
    case (no_batch drv1)
    then show ?thesis
      using assms(3) by (simp add: new_attempts_def new_batches_def)
  next
    case (batch drv1)
    then show ?thesis using that by simp
  qed
  show ?thesis
    using first second third by blast
qed

lemma busy_attempt:
  assumes "known_ids drv (10462, 4418) = Some cb" and "daemon_set drv"
      and "fail_cbs drv (10462, 4418) = None"
  shows "handle_new_device busy_environment syspath 10462 4418 drv =
           (Returns (Some True),
            drv\<lparr>retry_devices := retry_devices drv @ [(syspath, 10462, 4418)],
                driver_trace := driver_trace drv @
                  [Attempt syspath 10462 4418, DriverCallback cb 7 9, LogClaimFailed 10462 4418,
                   AddError 10462 4418, RawDeviceClose 7]\<rparr>)"
  using assms
  by (simp add: handle_new_device_def claim_device_def busy_environment_def Let_def
        drv_emit_def add_error_if_daemon_def dom_def)

lemma busy_driver_eq:
  "busy_driver = example_driver\<lparr>retry_devices := [(busy_path, 10462, 4418)],
      driver_trace := [Attempt busy_path 10462 4418, DriverCallback 1 7 9,
                       LogClaimFailed 10462 4418, AddError 10462 4418, RawDeviceClose 7]\<rparr>"
  unfolding busy_driver_def
  by (subst busy_attempt [where cb = 1])
     (simp_all add: example_driver_def new_usb_driver_def)

lemma busy_retry:
  "mainloop busy_environment (201 / 2) (201 / 2) busy_driver =
     (None, example_driver\<lparr>retry_devices := [(busy_path, 10462, 4418)],
        retry_devices_timer := 211 / 2,
        driver_trace := [Attempt busy_path 10462 4418, DriverCallback 1 7 9,
                         LogClaimFailed 10462 4418, AddError 10462 4418, RawDeviceClose 7,
                         RetryBatch (201 / 2),
                         Attempt busy_path 10462 4418, DriverCallback 1 7 9,
                         LogClaimFailed 10462 4418, AddError 10462 4418, RawDeviceClose 7]\<rparr>)"
proof -
  define queued where "queued = (example_driver\<lparr>retry_devices := [],
      retry_devices_timer := 211 / 2,
      driver_trace := [Attempt busy_path 10462 4418, DriverCallback 1 7 9,
                       LogClaimFailed 10462 4418, AddError 10462 4418, RawDeviceClose 7,
                       RetryBatch (201 / 2)]\<rparr>)"
  have start: "mainloop busy_environment (201 / 2) (201 / 2) busy_driver =
                 retry_loop busy_environment [(busy_path, 10462, 4418)] queued"
    unfolding busy_driver_eq queued_def
    by (simp add: mainloop_def Let_def drv_emit_def example_driver_def new_usb_driver_def)
  have again: "handle_new_device busy_environment busy_path 10462 4418 queued =
      (Returns (Some True),
       queued\<lparr>retry_devices := retry_devices queued @ [(busy_path, 10462, 4418)],
          driver_trace := driver_trace queued @
            [Attempt busy_path 10462 4418, DriverCallback 1 7 9, LogClaimFailed 10462 4418,
             AddError 10462 4418, RawDeviceClose 7]\<rparr>)"
    by (rule busy_attempt) (simp_all add: queued_def example_driver_def new_usb_driver_def)
  show ?thesis
    unfolding start by (simp add: again) (simp add: queued_def)
qed

theorem retry_batches_witness:
  "spaced (batch_times (driver_trace (run_driver busy_environment
      [Tick 100 100, Arrival busy_path 10462 4418, Tick (201 / 2) (201 / 2), Tick 103 103,
       Tick 106 106] example_driver)))
   \<and> new_attempts busy_driver (snd (mainloop busy_environment (201 / 2) (201 / 2) busy_driver))
       = [(busy_path, 10462, 4418)]
   \<and> new_batches busy_driver (snd (mainloop busy_environment (201 / 2) (201 / 2) busy_driver))
       = [201 / 2]
   \<and> retry_devices_timer (snd (mainloop busy_environment (201 / 2) (201 / 2) busy_driver))
       = 211 / 2"
proof -
  have clock: "list_all clock_forward
      [Tick 100 100, Arrival busy_path 10462 4418, Tick (201 / 2) (201 / 2), Tick 103 103,
       Tick 106 106]"
    by simp
  have fresh: "batch_times (driver_trace example_driver) = []"
    by (simp add: example_driver_def new_usb_driver_def)
  have ret: "mainloop busy_environment (201 / 2) (201 / 2) busy_driver
               = (None, snd (mainloop busy_environment (201 / 2) (201 / 2) busy_driver))"
    by (simp add: busy_retry)
  have queued: "retry_devices busy_driver = [(busy_path, 10462, 4418)]"
    "retry_devices_timer busy_driver = 0"
    by (simp_all add: busy_driver_eq example_driver_def new_usb_driver_def)
  show ?thesis
    using retry_batches [OF clock fresh ret] by (simp add: queued)
qed

text \<open>
  The claim as stated has an entry retried no earlier than 5 seconds after the first
  failure. A pass at clock 100 finds nothing to retry; then a device arrives and is busy;
  the pass at clock 100.5 retries it.
\<close>

theorem retry_shortly_after_failure:
  "batch_times (driver_trace (run_driver busy_environment
      [Tick 100 100, Arrival busy_path 10462 4418, Tick (201 / 2) (201 / 2)] example_driver))
     = [201 / 2]
   \<and> attempts (driver_trace (run_driver busy_environment
      [Tick 100 100, Arrival busy_path 10462 4418, Tick (201 / 2) (201 / 2)] example_driver))
     = [(busy_path, 10462, 4418), (busy_path, 10462, 4418)]"
proof -
  have idle: "mainloop busy_environment 100 100 example_driver = (None, example_driver)"
    by (simp add: mainloop_def Let_def example_driver_def new_usb_driver_def
          busy_environment_def)
  have "run_driver busy_environment
      [Tick 100 100, Arrival busy_path 10462 4418, Tick (201 / 2) (201 / 2)] example_driver
        = snd (mainloop busy_environment (201 / 2) (201 / 2) busy_driver)"
    by (simp add: idle busy_driver_def)
  then show ?thesis
    by (simp add: busy_retry)
qed

end
